theory Spec2Isabelle
  imports Main
begin

section \<open>Trace recording and dense-edge inference (pyro/poutine/trace\_poutine.py)\<close>

text \<open>
  The development embeds \<^verbatim>\<open>trace_poutine.py\<close>: the function
  \<^verbatim>\<open>identify_dense_edges\<close>, the class \<^verbatim>\<open>TraceMessenger\<close> and the class
  \<^verbatim>\<open>TracePoutine\<close>. The module imports \<^verbatim>\<open>Messenger\<close>, \<^verbatim>\<open>Poutine\<close>,
  \<^verbatim>\<open>Trace\<close> and \<^verbatim>\<open>site_is_subsample\<close> from sibling modules; the first three are
  modelled from the specification (and marked so), the predicate is a parameter.
\<close>

subsection \<open>Errors\<close>

text \<open>
  Every \<^verbatim>\<open>raise\<close> and failing \<^verbatim>\<open>assert\<close> is a value. \<open>RuntimeError\<close> carries the
  formatted message of the source. \<open>DuplicateSiteError\<close> and \<open>StackCorruption\<close> are the
  conditions the specification names for the trace and the execution stack.
\<close>

datatype error =
    RuntimeError string
  | AssertionError
  | KeyError string
  | AttributeError string
  | DuplicateSiteError string
  | StackCorruption
  | ComputationFailure nat

subsection \<open>Frames, nodes and effect messages\<close>

text \<open>A frame of a \<^verbatim>\<open>cond_indep_stack\<close>: \<^verbatim>\<open>query.name\<close> and \<^verbatim>\<open>query.counter\<close>.\<close>

record frame =
  frame_name :: string
  counter :: int

text \<open>
  A node is the dictionary of attributes stored under a name. The keys \<^verbatim>\<open>"name"\<close> and
  \<^verbatim>\<open>"type"\<close> are given at every insertion of the source; every other key is present at
  some insertions and absent at others, hence optional. The payloads (\<^verbatim>\<open>value\<close>,
  \<^verbatim>\<open>args\<close>, \<^verbatim>\<open>kwargs\<close>) are opaque: the type \<open>'v\<close>.
\<close>

record 'v node =
  node_name :: string
  node_type :: string
  node_value :: "'v option"
  cond_indep_stack :: "frame list option"
  node_args :: "'v option"
  node_kwargs :: "'v option"
  is_observed :: "bool option"
  node_done :: "bool option"

text \<open>
  Modelled from the spec: the kind of an effect, \<open>sample\<close> or \<open>param\<close> (the primitives
  that build messages are outside this module).
\<close>

datatype effect_kind = sample | param

text \<open>
  Modelled from the spec: the effect message (built outside this module). It carries at
  least \<open>name\<close>, the effect kind, \<open>value\<close>, \<open>is_observed\<close>, \<open>cond_indep_stack\<close> and a
  \<open>done\<close> flag. The value is the one settled for the effect, which the tracing handler
  never decides itself.
\<close>

record 'v msg =
  msg_name :: string
  msg_kind :: effect_kind
  msg_value :: 'v
  msg_is_observed :: bool
  msg_stack :: "frame list"
  msg_done :: bool

text \<open>The string under \<^verbatim>\<open>msg["type"]\<close>.\<close>

fun type_tag :: "effect_kind \<Rightarrow> string" where
  "type_tag sample = ''sample''"
| "type_tag param = ''param''"

text \<open>\<^verbatim>\<open>site = msg.copy(); site.update(value=val)\<close>: every field of the message.\<close>

definition site_of_msg :: "'v msg \<Rightarrow> 'v node" where
  "site_of_msg m =
     \<lparr> node_name = msg_name m, node_type = type_tag (msg_kind m),
       node_value = Some (msg_value m), cond_indep_stack = Some (msg_stack m),
       node_args = None, node_kwargs = None,
       is_observed = Some (msg_is_observed m), node_done = Some (msg_done m) \<rparr>"

subsection \<open>Trace\<close>

text \<open>
  Modelled from the spec: the class \<^verbatim>\<open>Trace\<close> (module \<^verbatim>\<open>trace\<close>, not part of the
  sources at hand). A container of nodes, keyed by name and insertion-ordered, plus a set of
  directed edges (ordered pairs of names) and the immutable property \<open>graph_type\<close>.
\<close>

record 'v Trace =
  nodes :: "(string \<times> 'v node) list"
  edges :: "(string \<times> string) set"
  trace_graph_type :: string

text \<open>Modelled from the spec: \<^verbatim>\<open>Trace(graph_type=g)\<close>, a fresh trace without nodes or edges.\<close>

definition Trace_init :: "string \<Rightarrow> 'v Trace" where
  "Trace_init g = \<lparr> nodes = [], edges = {}, trace_graph_type = g \<rparr>"

text \<open>Modelled from the spec: the membership test by name, \<^verbatim>\<open>name in trace\<close>.\<close>

definition contains :: "'v Trace \<Rightarrow> string \<Rightarrow> bool" where
  "contains tr name = (map_of (nodes tr) name \<noteq> None)"

text \<open>
  Modelled from the spec: \<^verbatim>\<open>Trace.add_node\<close>, node insertion by name, rejecting a name
  already present with \<open>DuplicateSiteError\<close>. The new node comes last in insertion order.
\<close>

definition add_node :: "'v Trace \<Rightarrow> string \<Rightarrow> 'v node \<Rightarrow> error + 'v Trace" where
  "add_node tr name site =
     (if contains tr name then Inl (DuplicateSiteError name)
      else Inr (tr\<lparr>nodes := nodes tr @ [(name, site)]\<rparr>))"

text \<open>
  Modelled from the spec: \<^verbatim>\<open>Trace.add_edge\<close>, idempotent edge insertion.
\<close>

definition add_edge :: "'v Trace \<Rightarrow> string \<Rightarrow> string \<Rightarrow> 'v Trace" where
  "add_edge tr u v = tr\<lparr>edges := insert (u, v) (edges tr)\<rparr>"

text \<open>
  Modelled from the spec: \<^verbatim>\<open>Trace.copy\<close>, the content of the new instance (the new
  instance itself is allocated in the store below).
\<close>

definition copy :: "'v Trace \<Rightarrow> 'v Trace" where
  "copy tr = \<lparr> nodes = nodes tr, edges = edges tr, trace_graph_type = trace_graph_type tr \<rparr>"

subsection \<open>identify\_dense\_edges\<close>

text \<open>
  The innermost loop over \<^verbatim>\<open>zip(node["cond_indep_stack"], past_node["cond_indep_stack"])\<close>:
  the value of \<^verbatim>\<open>past_node_independent\<close> when the loop ends.
\<close>

fun past_node_independent :: "(frame \<times> frame) list \<Rightarrow> bool" where
  "past_node_independent [] = False"
| "past_node_independent ((query, target) # rest) =
     (if frame_name query = frame_name target \<and> counter query \<noteq> counter target then True
      else past_node_independent rest)"

text \<open>
  The loop \<^verbatim>\<open>for past_name, past_node in trace.nodes.items()\<close> for a fixed outer
  \<open>(name, node)\<close>. The trace is mutated in place, so the result is the trace as it stands
  when the loop ends or raises, with the error if any. The first test is on \<open>node\<close>, as
  in the source. Reading \<^verbatim>\<open>["cond_indep_stack"]\<close> of a node without the key raises
  \<open>KeyError\<close>; both operands of \<^verbatim>\<open>zip\<close> are read before the comparison, \<open>node\<close> first.
\<close>

fun inner_loop ::
  "('v node \<Rightarrow> bool) \<Rightarrow> string \<Rightarrow> 'v node \<Rightarrow> (string \<times> 'v node) list \<Rightarrow> 'v Trace
     \<Rightarrow> 'v Trace \<times> error option" where
  "inner_loop site_is_subsample name node [] tr = (tr, None)"
| "inner_loop site_is_subsample name node ((past_name, past_node) # rest) tr =
     (if site_is_subsample node then inner_loop site_is_subsample name node rest tr
      else if node_type past_node = ''sample'' then
        (if past_name = name then (tr, None)
         else (case cond_indep_stack node of
                 None \<Rightarrow> (tr, Some (KeyError ''cond_indep_stack''))
               | Some qs \<Rightarrow>
                   (case cond_indep_stack past_node of
                      None \<Rightarrow> (tr, Some (KeyError ''cond_indep_stack''))
                    | Some ts \<Rightarrow>
                        (if \<not> past_node_independent (zip qs ts)
                         then inner_loop site_is_subsample name node rest
                                (add_edge tr past_name name)
                         else inner_loop site_is_subsample name node rest tr))))
      else inner_loop site_is_subsample name node rest tr)"

text \<open>
  The loop \<^verbatim>\<open>for name, node in trace.nodes.items()\<close>. The inner loop iterates over the
  node mapping of the trace as it is then.
\<close>

fun outer_loop ::
  "('v node \<Rightarrow> bool) \<Rightarrow> (string \<times> 'v node) list \<Rightarrow> 'v Trace \<Rightarrow> 'v Trace \<times> error option" where
  "outer_loop site_is_subsample [] tr = (tr, None)"
| "outer_loop site_is_subsample ((name, node) # rest) tr =
     (if site_is_subsample node then outer_loop site_is_subsample rest tr
      else if node_type node = ''sample'' then
        (case inner_loop site_is_subsample name node (nodes tr) tr of
           (tr', Some e) \<Rightarrow> (tr', Some e)
         | (tr', None) \<Rightarrow> outer_loop site_is_subsample rest tr')
      else outer_loop site_is_subsample rest tr)"

definition identify_dense_edges ::
  "('v node \<Rightarrow> bool) \<Rightarrow> 'v Trace \<Rightarrow> 'v Trace \<times> error option" where
  "identify_dense_edges site_is_subsample trace =
     outer_loop site_is_subsample (nodes trace) trace"

subsection \<open>The mutable world: handler object, trace objects, execution stack\<close>

text \<open>
  A \<^verbatim>\<open>TraceMessenger\<close> object has the attributes \<^verbatim>\<open>graph_type\<close> and \<^verbatim>\<open>trace\<close>.
  The attribute \<^verbatim>\<open>trace\<close> is a reference to a trace object and is unset until the
  first assignment (\<^verbatim>\<open>__init__\<close> does not assign it).
\<close>

record TraceMessenger =
  graph_type :: string
  trace :: "nat option"

text \<open>
  Modelled from the spec: an entry of the execution stack (the stack is kept by the
  module \<^verbatim>\<open>poutine\<close>). It is a handler object, compared by identity: the tracing handler
  under study, or some other handler, whose hooks are outside this module.
\<close>

datatype handler = This_msngr | Other_msngr nat

text \<open>
  Trace objects live in a store and are referred to by their index, so that two references
  to one object and a copy of an object are told apart. \<open>poutine_trace\<close> is the
  attribute \<^verbatim>\<open>trace\<close> of the \<^verbatim>\<open>TracePoutine\<close> object. \<open>PYRO_STACK\<close> is the
  process-wide execution stack, innermost handler last.
\<close>

record 'v state =
  msngr :: TraceMessenger
  poutine_trace :: "nat option"
  store :: "'v Trace list"
  PYRO_STACK :: "handler list"

text \<open>Creating a trace object: it gets an index no object has had before.\<close>

definition alloc :: "'v Trace \<Rightarrow> 'v state \<Rightarrow> nat \<times> 'v state" where
  "alloc tr s = (length (store s), s\<lparr>store := store s @ [tr]\<rparr>)"

text \<open>In-place mutation of the trace object at index \<open>a\<close>.\<close>

definition assign :: "nat \<Rightarrow> 'v Trace \<Rightarrow> 'v state \<Rightarrow> 'v state" where
  "assign a tr s = s\<lparr>store := (store s)[a := tr]\<rparr>"

text \<open>
  Reading \<^verbatim>\<open>self.trace\<close>: \<open>AttributeError\<close> when the attribute is unset. A reference
  to no object of the store does not occur in Python; the model answers it in the same way.
\<close>

definition self_trace :: "'v state \<Rightarrow> error + (nat \<times> 'v Trace)" where
  "self_trace s =
     (case trace (msngr s) of
        None \<Rightarrow> Inl (AttributeError ''trace'')
      | Some a \<Rightarrow>
          (if a < length (store s) then Inr (a, store s ! a)
           else Inl (AttributeError ''trace'')))"

text \<open>\<^verbatim>\<open>self.trace.add_node(name, **site)\<close> on the live trace object.\<close>

definition self_trace_add_node ::
  "'v state \<Rightarrow> string \<Rightarrow> 'v node \<Rightarrow> 'v state \<times> error option" where
  "self_trace_add_node s name site =
     (case self_trace s of
        Inl e \<Rightarrow> (s, Some e)
      | Inr (a, tr) \<Rightarrow>
          (case add_node tr name site of
             Inl e \<Rightarrow> (s, Some e)
           | Inr tr' \<Rightarrow> (assign a tr' s, None)))"

subsection \<open>TraceMessenger\<close>

text \<open>
  \<^verbatim>\<open>TraceMessenger.__init__(graph_type=None)\<close>: \<open>None\<close> stands for \<^verbatim>\<open>"flat"\<close>, and
  the assertion admits \<^verbatim>\<open>"flat"\<close> and \<^verbatim>\<open>"dense"\<close> only.
\<close>

definition TraceMessenger_init :: "string option \<Rightarrow> error + TraceMessenger" where
  "TraceMessenger_init graph_type_arg =
     (let g = (case graph_type_arg of None \<Rightarrow> ''flat'' | Some g \<Rightarrow> g)
      in if g \<in> set [''flat'', ''dense'']
         then Inr \<lparr> graph_type = g, trace = None \<rparr>
         else Inl AssertionError)"

text \<open>
  \<^verbatim>\<open>_pyro_sample\<close>, given the trace object \<^verbatim>\<open>self.trace\<close> refers to. The result
  \<open>Inr None\<close> is the source's \<^verbatim>\<open>return None\<close>.
\<close>

definition pyro_sample :: "'v Trace \<Rightarrow> 'v msg \<Rightarrow> error + 'v option" where
  "pyro_sample self_tr m =
     (let name = msg_name m in
      if contains self_tr name then
        (case map_of (nodes self_tr) name of
           None \<Rightarrow> Inl (KeyError name)
         | Some site \<Rightarrow>
             (if node_type site = ''param''
              then Inl (RuntimeError (name @ '' is already in the trace as a param''))
              else if node_type site = ''sample''
              then Inl (RuntimeError
                     (''Multiple pyro.sample sites named '' @ [CHR 0x27] @ name @ [CHR 0x27]))
              else Inr None))
      else Inr None)"

text \<open>\<^verbatim>\<open>_pyro_param\<close>, given the trace object \<^verbatim>\<open>self.trace\<close> refers to.\<close>

definition pyro_param :: "'v Trace \<Rightarrow> 'v msg \<Rightarrow> error + 'v option" where
  "pyro_param self_tr m =
     (if contains self_tr (msg_name m) then
        (case map_of (nodes self_tr) (msg_name m) of
           None \<Rightarrow> Inl (KeyError (msg_name m))
         | Some site \<Rightarrow>
             (if node_type site = ''sample''
              then Inl (RuntimeError (msg_name m @ '' is already in the trace as a sample''))
              else Inr None))
      else Inr None)"

text \<open>
  Modelled from the spec: \<^verbatim>\<open>Messenger._process_message\<close>, which hands the message to
  the hook of its effect kind.
\<close>

definition process_message :: "'v state \<Rightarrow> 'v msg \<Rightarrow> error + 'v option" where
  "process_message s m =
     (case self_trace s of
        Inl e \<Rightarrow> Inl e
      | Inr (a, tr) \<Rightarrow>
          (case msg_kind m of
             sample \<Rightarrow> pyro_sample tr m
           | param \<Rightarrow> pyro_param tr m))"

text \<open>\<^verbatim>\<open>_postprocess_message\<close>: the node written is a copy of the message.\<close>

definition postprocess_message :: "'v state \<Rightarrow> 'v msg \<Rightarrow> 'v state \<times> error option" where
  "postprocess_message s m =
     (let val = msg_value m;
          site = (site_of_msg m)\<lparr>node_value := Some val\<rparr>
      in self_trace_add_node s (msg_name m) site)"

text \<open>
  \<^verbatim>\<open>_reset\<close>: a new trace object seeded with an \<^verbatim>\<open>_INPUT\<close> node of type
  \<^verbatim>\<open>"input"\<close>, whose \<^verbatim>\<open>args\<close> and \<^verbatim>\<open>kwargs\<close> are read from the \<^verbatim>\<open>_INPUT\<close> node of
  the old live trace; then \<^verbatim>\<open>self.trace\<close> is rebound. The new object is created before
  the arguments of \<^verbatim>\<open>add_node\<close> are evaluated. The inherited \<^verbatim>\<open>_reset\<close> is outside
  this module and is taken to change nothing here.
\<close>

definition TraceMessenger_reset :: "'v state \<Rightarrow> 'v state \<times> error option" where
  "TraceMessenger_reset s =
     (let (t, s1) = alloc (Trace_init (graph_type (msngr s))) s in
      case self_trace s1 of
        Inl e \<Rightarrow> (s1, Some e)
      | Inr (a, old) \<Rightarrow>
          (case map_of (nodes old) ''_INPUT'' of
             None \<Rightarrow> (s1, Some (KeyError ''_INPUT''))
           | Some inp \<Rightarrow>
               (case node_args inp of
                  None \<Rightarrow> (s1, Some (KeyError ''args''))
                | Some a_args \<Rightarrow>
                    (case node_kwargs inp of
                       None \<Rightarrow> (s1, Some (KeyError ''kwargs''))
                     | Some a_kwargs \<Rightarrow>
                         (case add_node (store s1 ! t) ''_INPUT''
                                 \<lparr> node_name = ''_INPUT'', node_type = ''input'',
                                   node_value = None, cond_indep_stack = None,
                                   node_args = Some a_args, node_kwargs = Some a_kwargs,
                                   is_observed = None, node_done = None \<rparr> of
                            Inl e \<Rightarrow> (s1, Some e)
                          | Inr tr \<Rightarrow>
                              ((assign t tr s1)\<lparr>msngr := (msngr s1)\<lparr>trace := Some t\<rparr>\<rparr>,
                               None))))))"

text \<open>
  \<^verbatim>\<open>TraceMessenger.get_trace\<close>: \<^verbatim>\<open>self.trace.copy()\<close>, a new trace object; the result
  is the reference to it.
\<close>

definition TraceMessenger_get_trace :: "'v state \<Rightarrow> 'v state \<times> (error + nat)" where
  "TraceMessenger_get_trace s =
     (case self_trace s of
        Inl e \<Rightarrow> (s, Inl e)
      | Inr (a, tr) \<Rightarrow> (let (c, s') = alloc (copy tr) s in (s', Inr c)))"

subsection \<open>Execution stack and scope\<close>

text \<open>
  Modelled from the spec: \<open>install(handler)\<close> pushes the handler
  (\<^verbatim>\<open>Messenger.__enter__\<close>).
\<close>

definition install :: "'v state \<Rightarrow> 'v state" where
  "install s = s\<lparr>PYRO_STACK := PYRO_STACK s @ [This_msngr]\<rparr>"

text \<open>
  Modelled from the spec: \<open>uninstall(handler)\<close> pops the top of the stack and fails with
  \<open>StackCorruption\<close> if the top is not the handler being removed
  (\<^verbatim>\<open>Messenger.__exit__\<close>).
\<close>

definition uninstall :: "'v state \<Rightarrow> 'v state \<times> error option" where
  "uninstall s =
     (if PYRO_STACK s \<noteq> [] \<and> last (PYRO_STACK s) = This_msngr
      then (s\<lparr>PYRO_STACK := butlast (PYRO_STACK s)\<rparr>, None)
      else (s, Some StackCorruption))"

text \<open>
  \<^verbatim>\<open>TraceMessenger.__exit__\<close>: in dense mode the edges are inferred on the live trace
  object, in place; then the inherited \<^verbatim>\<open>__exit__\<close> runs. An error of the edge pass
  leaves the method before the inherited \<^verbatim>\<open>__exit__\<close> is reached.
\<close>

definition TraceMessenger_exit ::
  "('v node \<Rightarrow> bool) \<Rightarrow> 'v state \<Rightarrow> 'v state \<times> error option" where
  "TraceMessenger_exit site_is_subsample s =
     (if graph_type (msngr s) = ''dense'' then
        (case self_trace s of
           Inl e \<Rightarrow> (s, Some e)
         | Inr (a, tr) \<Rightarrow>
             (case identify_dense_edges site_is_subsample tr of
                (tr', Some e) \<Rightarrow> (assign a tr' s, Some e)
              | (tr', None) \<Rightarrow> uninstall (assign a tr' s)))
      else uninstall s)"

text \<open>
  Modelled from the spec: a computation, seen from the handler, is the sequence of effects
  it performs, each with its settled value, ended by its result or by its failure.
\<close>

datatype 'v computation =
    Done 'v
  | Fail error
  | Perform "'v msg" "'v computation"

text \<open>
  Modelled from the spec: the dispatch of one effect to the tracing handler, if it is
  installed: \<open>process_effect\<close> first, then, the value being settled,
  \<open>postprocess_effect\<close>. A failure of a hook is raised inside the computation.
\<close>

definition apply_stack :: "'v state \<Rightarrow> 'v msg \<Rightarrow> 'v state \<times> error option" where
  "apply_stack s m =
     (if This_msngr \<in> set (PYRO_STACK s) then
        (case process_message s m of
           Inl e \<Rightarrow> (s, Some e)
         | Inr _ \<Rightarrow> postprocess_message s m)
      else (s, None))"

text \<open>
  Modelled from the spec: running the computation. A failure, of the computation or of a
  hook, ends the run and is not retried.
\<close>

fun run :: "'v computation \<Rightarrow> 'v state \<Rightarrow> 'v state \<times> (error + 'v)" where
  "run (Done ret) s = (s, Inr ret)"
| "run (Fail e) s = (s, Inl e)"
| "run (Perform m rest) s =
     (case apply_stack s m of
        (s', Some e) \<Rightarrow> (s', Inl e)
      | (s', None) \<Rightarrow> run rest s')"

text \<open>
  Modelled from the spec: \<^verbatim>\<open>Poutine.__call__\<close>, the scope's \<open>invoke\<close>. The handler is
  installed, the computation runs, and on every exit path the handler's exit hook runs
  (try/finally); a failure of the computation is raised again after the cleanup.
\<close>

definition Poutine_call ::
  "('v node \<Rightarrow> bool) \<Rightarrow> 'v computation \<Rightarrow> 'v state \<Rightarrow> 'v state \<times> (error + 'v)" where
  "Poutine_call site_is_subsample c s =
     (case run c (install s) of
        (s', r) \<Rightarrow>
          (case TraceMessenger_exit site_is_subsample s' of
             (s'', Some e) \<Rightarrow> (s'', Inl e)
           | (s'', None) \<Rightarrow> (s'', r)))"

subsection \<open>TracePoutine\<close>

text \<open>
  \<^verbatim>\<open>TracePoutine.__init__(fn, graph_type=None)\<close> builds the \<^verbatim>\<open>TraceMessenger\<close> and
  binds it to \<open>fn\<close>. The objects start in a world where no trace object exists yet.
\<close>

definition TracePoutine_init ::
  "('v \<Rightarrow> 'v \<Rightarrow> 'v computation) \<Rightarrow> string option
     \<Rightarrow> error + (TraceMessenger \<times> ('v \<Rightarrow> 'v \<Rightarrow> 'v computation))" where
  "TracePoutine_init fn graph_type_arg =
     (case TraceMessenger_init graph_type_arg of
        Inl e \<Rightarrow> Inl e
      | Inr m \<Rightarrow> Inr (m, fn))"

definition initial_state :: "TraceMessenger \<Rightarrow> handler list \<Rightarrow> 'v state" where
  "initial_state m stack = \<lparr> msngr = m, poutine_trace = None, store = [], PYRO_STACK = stack \<rparr>"

text \<open>
  \<^verbatim>\<open>TracePoutine.__call__(*args, **kwargs)\<close>. The \<^verbatim>\<open>_INPUT\<close> node is written with
  \<^verbatim>\<open>type="args"\<close>, the \<^verbatim>\<open>_RETURN\<close> node with \<^verbatim>\<open>type="return"\<close>.
\<close>

definition TracePoutine_call ::
  "('v node \<Rightarrow> bool) \<Rightarrow> ('v \<Rightarrow> 'v \<Rightarrow> 'v computation) \<Rightarrow> 'v \<Rightarrow> 'v \<Rightarrow> 'v state
     \<Rightarrow> 'v state \<times> (error + 'v)" where
  "TracePoutine_call site_is_subsample fn args kwargs s =
     (let (t, s1) = alloc (Trace_init (graph_type (msngr s))) s;
          s2 = s1\<lparr>msngr := (msngr s1)\<lparr>trace := Some t\<rparr>\<rparr>;
          s3 = s2\<lparr>poutine_trace := trace (msngr s2)\<rparr>
      in case self_trace_add_node s3 ''_INPUT''
                \<lparr> node_name = ''_INPUT'', node_type = ''args'',
                  node_value = None, cond_indep_stack = None,
                  node_args = Some args, node_kwargs = Some kwargs,
                  is_observed = None, node_done = None \<rparr> of
           (s4, Some e) \<Rightarrow> (s4, Inl e)
         | (s4, None) \<Rightarrow>
             (case Poutine_call site_is_subsample (fn args kwargs) s4 of
                (s5, Inl e) \<Rightarrow> (s5, Inl e)
              | (s5, Inr ret) \<Rightarrow>
                  (case self_trace_add_node s5 ''_RETURN''
                          \<lparr> node_name = ''_RETURN'', node_type = ''return'',
                            node_value = Some ret, cond_indep_stack = None,
                            node_args = None, node_kwargs = None,
                            is_observed = None, node_done = None \<rparr> of
                     (s6, Some e) \<Rightarrow> (s6, Inl e)
                   | (s6, None) \<Rightarrow> (s6, Inr ret))))"

text \<open>
  \<^verbatim>\<open>TracePoutine.get_trace(*args, **kwargs)\<close>: calls the poutine and returns
  \<^verbatim>\<open>self.msngr.get_trace()\<close>.
\<close>

definition TracePoutine_get_trace ::
  "('v node \<Rightarrow> bool) \<Rightarrow> ('v \<Rightarrow> 'v \<Rightarrow> 'v computation) \<Rightarrow> 'v \<Rightarrow> 'v \<Rightarrow> 'v state
     \<Rightarrow> 'v state \<times> (error + nat)" where
  "TracePoutine_get_trace site_is_subsample fn args kwargs s =
     (case TracePoutine_call site_is_subsample fn args kwargs s of
        (s', Inl e) \<Rightarrow> (s', Inl e)
      | (s', Inr ret) \<Rightarrow> TraceMessenger_get_trace s')"

section \<open>Notions used in the statements and proofs\<close>

subsection \<open>The edge pass\<close>

text \<open>
  A node mapping is well-keyed for the edge pass when every node of type \<^verbatim>\<open>"sample"\<close>
  has the key \<^verbatim>\<open>"cond_indep_stack"\<close>, so that no read of it raises.
\<close>

definition stacks_ok :: "(string \<times> 'v node) list \<Rightarrow> bool" where
  "stacks_ok items =
     list_all (\<lambda>(n, nd). node_type nd = ''sample'' \<longrightarrow> cond_indep_stack nd \<noteq> None) items"

text \<open>The items the inner loop passes before its \<^verbatim>\<open>break\<close>.\<close>

definition visited :: "string \<Rightarrow> (string \<times> 'v node) list \<Rightarrow> (string \<times> 'v node) list" where
  "visited name items =
     takeWhile (\<lambda>(pn, pnd). \<not> (node_type pnd = ''sample'' \<and> pn = name)) items"

text \<open>The names among \<open>items\<close> from which the inner loop adds an edge, for the stack \<open>qs\<close>.\<close>

definition sources :: "frame list \<Rightarrow> (string \<times> 'v node) list \<Rightarrow> string set" where
  "sources qs items =
     {pn. \<exists>pnd ts. (pn, pnd) \<in> set items \<and> node_type pnd = ''sample''
            \<and> cond_indep_stack pnd = Some ts \<and> \<not> past_node_independent (zip qs ts)}"

text \<open>The edges the two loops add, for the outer items \<open>items\<close> and the inner items \<open>past\<close>.\<close>

definition dense_edges ::
  "('v node \<Rightarrow> bool) \<Rightarrow> (string \<times> 'v node) list \<Rightarrow> (string \<times> 'v node) list
     \<Rightarrow> (string \<times> string) set" where
  "dense_edges sub items past =
     {(pn, name). \<exists>node qs. (name, node) \<in> set items \<and> \<not> sub node
        \<and> node_type node = ''sample'' \<and> cond_indep_stack node = Some qs
        \<and> pn \<in> sources qs (visited name past)}"

subsection \<open>An invocation, on the trace alone\<close>

text \<open>
  What the two hooks of the handler do to the live trace for one message: the hook of
  the effect kind, then the insertion of the node.
\<close>

definition record_effect :: "'v Trace \<Rightarrow> 'v msg \<Rightarrow> error + 'v Trace" where
  "record_effect tr m =
     (case (case msg_kind m of sample \<Rightarrow> pyro_sample tr m | param \<Rightarrow> pyro_param tr m) of
        Inl e \<Rightarrow> Inl e
      | Inr _ \<Rightarrow> add_node tr (msg_name m) (site_of_msg m))"

text \<open>What the run of a computation does to the live trace, with its outcome.\<close>

fun record_all :: "'v computation \<Rightarrow> 'v Trace \<Rightarrow> 'v Trace \<times> (error + 'v)" where
  "record_all (Done ret) tr = (tr, Inr ret)"
| "record_all (Fail e) tr = (tr, Inl e)"
| "record_all (Perform m rest) tr =
     (case record_effect tr m of
        Inl e \<Rightarrow> (tr, Inl e)
      | Inr tr' \<Rightarrow> record_all rest tr')"

text \<open>What the exit hook does to a well-keyed live trace.\<close>

definition exit_trace :: "('v node \<Rightarrow> bool) \<Rightarrow> string \<Rightarrow> 'v Trace \<Rightarrow> 'v Trace" where
  "exit_trace sub g tr = (if g = ''dense'' then fst (identify_dense_edges sub tr) else tr)"

text \<open>The two synthetic nodes \<^verbatim>\<open>TracePoutine.__call__\<close> writes.\<close>

definition INPUT_site :: "'v \<Rightarrow> 'v \<Rightarrow> 'v node" where
  "INPUT_site args kwargs =
     \<lparr> node_name = ''_INPUT'', node_type = ''args'', node_value = None,
       cond_indep_stack = None, node_args = Some args, node_kwargs = Some kwargs,
       is_observed = None, node_done = None \<rparr>"

definition RETURN_site :: "'v \<Rightarrow> 'v node" where
  "RETURN_site ret =
     \<lparr> node_name = ''_RETURN'', node_type = ''return'', node_value = Some ret,
       cond_indep_stack = None, node_args = None, node_kwargs = None,
       is_observed = None, node_done = None \<rparr>"

text \<open>The live trace when the bound computation starts.\<close>

definition start_trace :: "string \<Rightarrow> 'v \<Rightarrow> 'v \<Rightarrow> 'v Trace" where
  "start_trace g args kwargs =
     \<lparr> nodes = [(''_INPUT'', INPUT_site args kwargs)], edges = {}, trace_graph_type = g \<rparr>"

text \<open>The live trace an invocation leaves, with the outcome of the invocation.\<close>

definition traced ::
  "('v node \<Rightarrow> bool) \<Rightarrow> string \<Rightarrow> 'v computation \<Rightarrow> 'v \<Rightarrow> 'v \<Rightarrow> 'v Trace \<times> (error + 'v)" where
  "traced sub g c args kwargs =
     (let tr1 = fst (record_all c (start_trace g args kwargs));
          r = snd (record_all c (start_trace g args kwargs));
          tr2 = exit_trace sub g tr1
      in case r of
           Inl e \<Rightarrow> (tr2, Inl e)
         | Inr ret \<Rightarrow>
             (case add_node tr2 ''_RETURN'' (RETURN_site ret) of
                Inl e \<Rightarrow> (tr2, Inl e)
              | Inr tr3 \<Rightarrow> (tr3, Inr ret)))"

text \<open>
  The state in which \<^verbatim>\<open>TracePoutine.__call__\<close> starts the bound computation: the new
  trace object holds the \<^verbatim>\<open>_INPUT\<close> node, both \<^verbatim>\<open>trace\<close> attributes refer to it, and
  the handler is installed.
\<close>

definition call_start :: "'v state \<Rightarrow> 'v \<Rightarrow> 'v \<Rightarrow> 'v state" where
  "call_start s args kwargs =
     \<lparr> msngr = (msngr s)\<lparr>trace := Some (length (store s))\<rparr>,
       poutine_trace = Some (length (store s)),
       store = store s @ [start_trace (graph_type (msngr s)) args kwargs],
       PYRO_STACK = PYRO_STACK s @ [This_msngr] \<rparr>"

text \<open>The computation that performs the effects \<open>ms\<close> in order and goes on as \<open>c\<close>.\<close>

fun performs :: "'v msg list \<Rightarrow> 'v computation \<Rightarrow> 'v computation" where
  "performs [] c = c"
| "performs (m # ms) c = Perform m (performs ms c)"

text \<open>The nodes the messages \<open>ms\<close> leave in a trace that has none of their names.\<close>

definition sites :: "'v msg list \<Rightarrow> (string \<times> 'v node) list" where
  "sites ms = map (\<lambda>m. (msg_name m, site_of_msg m)) ms"

text \<open>
  The error of an effect of kind \<open>attempted\<close> at a name under which an effect of kind
  \<open>recorded\<close> has left a node: the three errors of the hooks, and the error of the
  insertion for a param effect after a param effect.
\<close>

definition conflict :: "effect_kind \<Rightarrow> effect_kind \<Rightarrow> string \<Rightarrow> error" where
  "conflict recorded attempted name =
     (case attempted of
        sample \<Rightarrow>
          (case recorded of
             param \<Rightarrow> RuntimeError (name @ '' is already in the trace as a param'')
           | sample \<Rightarrow> RuntimeError
                (''Multiple pyro.sample sites named '' @ [CHR 0x27] @ name @ [CHR 0x27]))
      | param \<Rightarrow>
          (case recorded of
             sample \<Rightarrow> RuntimeError (name @ '' is already in the trace as a sample'')
           | param \<Rightarrow> DuplicateSiteError name))"

subsection \<open>What may follow a call of get\_trace\<close>

text \<open>
  Operations that may follow a call of \<^verbatim>\<open>get_trace\<close>: a reset of the handler, a further
  invocation, the recording of a message into the live trace.
\<close>

datatype 'v operation =
    Reset
  | Invoke "'v \<Rightarrow> 'v \<Rightarrow> 'v computation" 'v 'v
  | Record "'v msg"

fun later :: "('v node \<Rightarrow> bool) \<Rightarrow> 'v operation list \<Rightarrow> 'v state \<Rightarrow> 'v state" where
  "later sub [] s = s"
| "later sub (Reset # ops) s = later sub ops (fst (TraceMessenger_reset s))"
| "later sub (Invoke fn args kwargs # ops) s =
     later sub ops (fst (TracePoutine_call sub fn args kwargs s))"
| "later sub (Record m # ops) s = later sub ops (fst (postprocess_message s m))"

text \<open>
  The reference \<open>c\<close> is to an object of the store with content \<open>x\<close>, and the handler's
  \<^verbatim>\<open>trace\<close> attribute does not refer to that object.
\<close>

definition held :: "nat \<Rightarrow> 'v Trace \<Rightarrow> 'v state \<Rightarrow> bool" where
  "held c x s = (c < length (store s) \<and> store s ! c = x \<and> trace (msngr s) \<noteq> Some c)"

subsection \<open>Concrete inputs\<close>

text \<open>A node as an effect of kind \<open>sample\<close> leaves it, with the stack \<open>st\<close>.\<close>

definition sample_site :: "string \<Rightarrow> frame list \<Rightarrow> unit node" where
  "sample_site name st =
     \<lparr> node_name = name, node_type = ''sample'', node_value = Some (),
       cond_indep_stack = Some st, node_args = None, node_kwargs = None,
       is_observed = Some False, node_done = Some False \<rparr>"

text \<open>
  Three sites: \<open>x@0\<close> and \<open>x@1\<close> in iterations 0 and 1 of the context \<open>plate\<close>, then
  \<open>y\<close> outside every context.
\<close>

definition plate_trace :: "unit Trace" where
  "plate_trace =
     \<lparr> nodes = [(''x@0'', sample_site ''x@0'' [\<lparr>frame_name = ''plate'', counter = 0\<rparr>]),
                (''x@1'', sample_site ''x@1'' [\<lparr>frame_name = ''plate'', counter = 1\<rparr>]),
                (''y'', sample_site ''y'' [])],
       edges = {}, trace_graph_type = ''dense'' \<rparr>"

text \<open>
  Four sites: \<open>u\<close> in iteration 0 of \<open>plate\<close>; \<open>v\<close> and \<open>w\<close> in the same iteration
  of \<open>plate\<close> and in iterations 2 and 3 of \<open>inner\<close>; \<open>z\<close> in iteration 5 of \<open>other\<close>.
\<close>

definition nested_trace :: "unit Trace" where
  "nested_trace =
     \<lparr> nodes = [(''u'', sample_site ''u'' [\<lparr>frame_name = ''plate'', counter = 0\<rparr>]),
                (''v'', sample_site ''v'' [\<lparr>frame_name = ''plate'', counter = 0\<rparr>,
                                         \<lparr>frame_name = ''inner'', counter = 2\<rparr>]),
                (''w'', sample_site ''w'' [\<lparr>frame_name = ''plate'', counter = 0\<rparr>,
                                         \<lparr>frame_name = ''inner'', counter = 3\<rparr>]),
                (''z'', sample_site ''z'' [\<lparr>frame_name = ''other'', counter = 5\<rparr>])],
       edges = {}, trace_graph_type = ''dense'' \<rparr>"

text \<open>
  Two sites of type \<^verbatim>\<open>"sample"\<close>: \<open>batch\<close>, which the classifier \<open>batch_is_subsample\<close>
  takes for a subsample site, then \<open>a\<close>.
\<close>

definition subsample_trace :: "unit Trace" where
  "subsample_trace =
     \<lparr> nodes = [(''batch'', sample_site ''batch'' []), (''a'', sample_site ''a'' [])],
       edges = {}, trace_graph_type = ''dense'' \<rparr>"

definition batch_is_subsample :: "unit node \<Rightarrow> bool" where
  "batch_is_subsample nd = (node_name nd = ''batch'')"

text \<open>Messages of the two kinds, computations built from them, and handler states.\<close>

definition sample_msg :: "string \<Rightarrow> frame list \<Rightarrow> unit msg" where
  "sample_msg name st =
     \<lparr> msg_name = name, msg_kind = sample, msg_value = (), msg_is_observed = False,
       msg_stack = st, msg_done = False \<rparr>"

definition param_msg :: "string \<Rightarrow> unit msg" where
  "param_msg name =
     \<lparr> msg_name = name, msg_kind = param, msg_value = (), msg_is_observed = False,
       msg_stack = [], msg_done = False \<rparr>"

definition two_samples :: "unit \<Rightarrow> unit \<Rightarrow> unit computation" where
  "two_samples args kwargs =
     Perform (sample_msg ''a'' []) (Perform (sample_msg ''b'' []) (Done ()))"

definition failing_computation :: "unit \<Rightarrow> unit \<Rightarrow> unit computation" where
  "failing_computation args kwargs =
     Perform (sample_msg ''a'' []) (Fail (ComputationFailure 7))"

definition sample_after_param :: "unit \<Rightarrow> unit \<Rightarrow> unit computation" where
  "sample_after_param args kwargs =
     performs [sample_msg ''a'' [], param_msg ''w''] (Perform (sample_msg ''w'' []) (Done ()))"

definition sample_twice :: "unit \<Rightarrow> unit \<Rightarrow> unit computation" where
  "sample_twice args kwargs =
     performs [sample_msg ''a'' [], param_msg ''w''] (Perform (sample_msg ''a'' []) (Done ()))"

definition param_after_sample :: "unit \<Rightarrow> unit \<Rightarrow> unit computation" where
  "param_after_sample args kwargs =
     performs [sample_msg ''a'' [], param_msg ''w''] (Perform (param_msg ''a'') (Done ()))"

definition param_twice :: "unit \<Rightarrow> unit \<Rightarrow> unit computation" where
  "param_twice args kwargs =
     performs [sample_msg ''a'' [], param_msg ''w''] (Perform (param_msg ''w'') (Done ()))"

text \<open>A trace with a sample node \<open>a\<close> and a param node \<open>w\<close>.\<close>

definition recorded_trace :: "unit Trace" where
  "recorded_trace =
     \<lparr> nodes = [(''a'', site_of_msg (sample_msg ''a'' [])), (''w'', site_of_msg (param_msg ''w''))],
       edges = {}, trace_graph_type = ''flat'' \<rparr>"

text \<open>
  Fresh handlers in flat and in dense mode, below another handler on the execution stack;
  and the dense handler after one invocation.
\<close>

definition flat_state :: "unit state" where
  "flat_state = initial_state \<lparr>graph_type = ''flat'', trace = None\<rparr> [Other_msngr 3]"

definition dense_state :: "unit state" where
  "dense_state = initial_state \<lparr>graph_type = ''dense'', trace = None\<rparr> [Other_msngr 3]"

definition live_state :: "unit state" where
  "live_state = fst (TracePoutine_call (\<lambda>nd. False) two_samples () () dense_state)"

section \<open>Properties of the edge pass\<close>

lemma add_edge_simps:
  "nodes (add_edge tr u v) = nodes tr"
  "trace_graph_type (add_edge tr u v) = trace_graph_type tr"
  "edges (add_edge tr u v) = insert (u, v) (edges tr)"
  by (simp_all add: add_edge_def)

lemma inner_loop_nodes:
  "nodes (fst (inner_loop sub name node items tr)) = nodes tr
   \<and> trace_graph_type (fst (inner_loop sub name node items tr)) = trace_graph_type tr"
  by (induction sub name node items tr rule: inner_loop.induct)
     (auto simp: add_edge_simps split: option.splits)

lemma outer_loop_nodes:
  "nodes (fst (outer_loop sub items tr)) = nodes tr
   \<and> trace_graph_type (fst (outer_loop sub items tr)) = trace_graph_type tr"
proof (induction sub items tr rule: outer_loop.induct)
  case (1 sub tr)
  show ?case by simp
next
  case (2 sub name node rest tr)
  show ?case
  proof (cases "inner_loop sub name node (nodes tr) tr")
    case (Pair tr' eo)
    with inner_loop_nodes [of sub name node "nodes tr" tr]
    have n: "nodes tr' = nodes tr" "trace_graph_type tr' = trace_graph_type tr" by simp_all
    show ?thesis using 2 Pair n by (cases eo) auto
  qed
qed

lemma inner_loop_no_error:
  "stacks_ok items \<Longrightarrow> cond_indep_stack node \<noteq> None \<Longrightarrow>
   snd (inner_loop sub name node items tr) = None"
  by (induction sub name node items tr rule: inner_loop.induct)
     (auto simp: stacks_ok_def split: option.splits)

lemma outer_loop_no_error:
  "stacks_ok items \<Longrightarrow> stacks_ok (nodes tr) \<Longrightarrow> snd (outer_loop sub items tr) = None"
proof (induction sub items tr rule: outer_loop.induct)
  case (1 sub tr)
  show ?case by simp
next
  case (2 sub name node rest tr)
  have rest: "stacks_ok rest" using 2(4) by (simp add: stacks_ok_def)
  show ?case
  proof (cases "\<not> sub node \<and> node_type node = ''sample''")
    case False
    then show ?thesis using 2 rest by auto
  next
    case True
    then have st: "cond_indep_stack node \<noteq> None" using 2(4) by (simp add: stacks_ok_def)
    obtain tr' eo where p: "inner_loop sub name node (nodes tr) tr = (tr', eo)" by force
    have eo: "eo = None" using inner_loop_no_error [OF 2(5) st, of sub name tr] p by simp
    have n: "nodes tr' = nodes tr" using inner_loop_nodes [of sub name node "nodes tr" tr] p by simp
    show ?thesis using True p eo n 2(2) [OF _ _ p [symmetric, unfolded eo]] rest 2(5)
      by simp
  qed
qed

lemma sources_Nil: "sources qs [] = {}"
  by (simp add: sources_def)

lemma sources_Cons:
  "sources qs ((pn, pnd) # rest) =
     (if node_type pnd = ''sample'' \<and> (\<exists>ts. cond_indep_stack pnd = Some ts \<and> \<not> past_node_independent (zip qs ts))
      then insert pn (sources qs rest) else sources qs rest)"
  by (auto simp: sources_def)

lemma visited_Nil: "visited name [] = []"
  by (simp add: visited_def)

lemma visited_Cons:
  "visited name ((pn, pnd) # rest) =
     (if node_type pnd = ''sample'' \<and> pn = name then [] else (pn, pnd) # visited name rest)"
  by (simp add: visited_def)

lemma inner_loop_edges:
  "\<not> sub node \<Longrightarrow> cond_indep_stack node = Some qs \<Longrightarrow> stacks_ok items \<Longrightarrow>
   edges (fst (inner_loop sub name node items tr))
     = edges tr \<union> (\<lambda>pn. (pn, name)) ` sources qs (visited name items)"
proof (induction items arbitrary: tr)
  case Nil
  show ?case by (simp add: visited_Nil sources_Nil)
next
  case (Cons it items)
  obtain pn pnd where it: "it = (pn, pnd)" by (cases it)
  have ok: "stacks_ok items" using Cons.prems(3) by (simp add: stacks_ok_def)
  note IH = Cons.IH [OF Cons.prems(1) Cons.prems(2) ok]
  show ?case
  proof (cases "node_type pnd = ''sample''")
    case False
    then show ?thesis using Cons.prems IH it
      by (simp add: visited_Cons sources_Cons)
  next
    case True
    then obtain ts where ts: "cond_indep_stack pnd = Some ts"
      using Cons.prems(3) it by (auto simp: stacks_ok_def)
    show ?thesis using True ts Cons.prems(1,2) IH it
      by (auto simp: visited_Cons sources_Cons sources_Nil add_edge_simps)
  qed
qed

lemma dense_edges_Nil: "dense_edges sub [] past = {}"
  by (simp add: dense_edges_def)

lemma dense_edges_Cons:
  "dense_edges sub ((name, node) # rest) past =
     (if \<not> sub node \<and> node_type node = ''sample''
      then (case cond_indep_stack node of None \<Rightarrow> {}
            | Some qs \<Rightarrow> (\<lambda>pn. (pn, name)) ` sources qs (visited name past))
      else {}) \<union> dense_edges sub rest past"
  by (auto simp: dense_edges_def split: option.splits)

lemma outer_loop_edges:
  "stacks_ok items \<Longrightarrow> stacks_ok (nodes tr) \<Longrightarrow>
   edges (fst (outer_loop sub items tr)) = edges tr \<union> dense_edges sub items (nodes tr)"
proof (induction items arbitrary: tr)
  case Nil
  show ?case by (simp add: dense_edges_Nil)
next
  case (Cons it items)
  obtain name node where it: "it = (name, node)" by (cases it)
  have ok: "stacks_ok items" using Cons.prems(1) by (simp add: stacks_ok_def)
  show ?case
  proof (cases "\<not> sub node \<and> node_type node = ''sample''")
    case False
    then show ?thesis using Cons.IH [OF ok Cons.prems(2)] it
      by (auto simp: dense_edges_Cons)
  next
    case True
    then obtain qs where qs: "cond_indep_stack node = Some qs"
      using Cons.prems(1) it by (auto simp: stacks_ok_def)
    obtain tr' eo where p: "inner_loop sub name node (nodes tr) tr = (tr', eo)" by force
    have eo: "eo = None"
      using inner_loop_no_error [OF Cons.prems(2), of node sub name tr] qs p by simp
    have n: "nodes tr' = nodes tr"
      using inner_loop_nodes [of sub name node "nodes tr" tr] p by simp
    have e: "edges tr' = edges tr \<union> (\<lambda>pn. (pn, name)) ` sources qs (visited name (nodes tr))"
      using inner_loop_edges [OF _ qs Cons.prems(2), of sub name tr] True p by simp
    have ok': "stacks_ok (nodes tr')" using n Cons.prems(2) by simp
    have "edges (fst (outer_loop sub (it # items) tr)) = edges (fst (outer_loop sub items tr'))"
      using True it p eo by simp
    also have "\<dots> = edges tr' \<union> dense_edges sub items (nodes tr')"
      by (rule Cons.IH [OF ok ok'])
    also have "\<dots> = edges tr \<union> dense_edges sub (it # items) (nodes tr)"
      using True qs e n it by (auto simp: dense_edges_Cons)
    finally show ?thesis .
  qed
qed

lemma identify_dense_edges_result:
  assumes "stacks_ok (nodes tr)"
  shows "identify_dense_edges sub tr =
           (tr\<lparr>edges := edges tr \<union> dense_edges sub (nodes tr) (nodes tr)\<rparr>, None)"
proof -
  obtain tr' eo where p: "outer_loop sub (nodes tr) tr = (tr', eo)" by force
  have "eo = None" using outer_loop_no_error [OF assms assms, of sub] p by simp
  moreover have "nodes tr' = nodes tr" "trace_graph_type tr' = trace_graph_type tr"
    using outer_loop_nodes [of sub "nodes tr" tr] p by simp_all
  moreover have "edges tr' = edges tr \<union> dense_edges sub (nodes tr) (nodes tr)"
    using outer_loop_edges [OF assms assms, of sub] p by simp
  ultimately show ?thesis using p by (simp add: identify_dense_edges_def)
qed

lemma visited_take:
  assumes d: "distinct (map fst items)" and j: "j < length items"
    and nj: "items ! j = (name, node)" and ty: "node_type node = ''sample''"
  shows "visited name items = take j items"
  unfolding visited_def
proof (rule takeWhile_eq_take_P_nth)
  fix i assume i: "i < j" "i < length items"
  have "i < length (map fst items)" "j < length (map fst items)" "i \<noteq> j"
    using i j by simp_all
  then have "map fst items ! i \<noteq> map fst items ! j"
    using d nth_eq_iff_index_eq by blast
  then have "fst (items ! i) \<noteq> name" using i j nj by simp
  then show "case items ! i of (pn, pnd) \<Rightarrow> \<not> (node_type pnd = ''sample'' \<and> pn = name)"
    by (cases "items ! i") simp
next
  show "\<not> (case items ! j of (pn, pnd) \<Rightarrow> \<not> (node_type pnd = ''sample'' \<and> pn = name))"
    using nj ty by simp
qed

lemma distinct_fst_unique:
  "distinct (map fst items) \<Longrightarrow> (k, a) \<in> set items \<Longrightarrow> (k, b) \<in> set items \<Longrightarrow> a = b"
proof -
  assume d: "distinct (map fst items)" and a: "(k, a) \<in> set items" and b: "(k, b) \<in> set items"
  have "map_of items k = Some a" using d a by (rule map_of_is_SomeI)
  moreover have "map_of items k = Some b" using d b by (rule map_of_is_SomeI)
  ultimately show "a = b" by simp
qed

text \<open>
  The outer test does its work: an edge the pass adds ends at a sample node that is not
  classified as a subsample site.
\<close>

lemma subsample_site_receives_no_edge:
  assumes "stacks_ok (nodes tr)"
    and "(p, n) \<in> edges (fst (identify_dense_edges sub tr))" and "(p, n) \<notin> edges tr"
  shows "\<exists>node. (n, node) \<in> set (nodes tr) \<and> \<not> sub node \<and> node_type node = ''sample''"
  using assms by (auto simp: identify_dense_edges_result dense_edges_def)

lemma plate_trace_wf:
  "distinct (map fst (nodes plate_trace))" "stacks_ok (nodes plate_trace)" "edges plate_trace = {}"
  by (simp_all add: plate_trace_def stacks_ok_def sample_site_def)

text \<open>
  The innermost loop decides what its name says: some pair of frames at the same position
  of the two stacks has the same context name and a different counter.
\<close>

lemma past_node_independent_iff_pair:
  "past_node_independent zs \<longleftrightarrow>
     (\<exists>z \<in> set zs. frame_name (fst z) = frame_name (snd z) \<and> counter (fst z) \<noteq> counter (snd z))"
  by (induction zs rule: past_node_independent.induct) auto

lemma past_node_independent_zip:
  "past_node_independent (zip xs ys) \<longleftrightarrow>
     (\<exists>k. k < length xs \<and> k < length ys \<and> frame_name (xs ! k) = frame_name (ys ! k)
          \<and> counter (xs ! k) \<noteq> counter (ys ! k))"
proof -
  have "past_node_independent (zip xs ys) \<longleftrightarrow>
     (\<exists>z \<in> set (zip xs ys). frame_name (fst z) = frame_name (snd z) \<and> counter (fst z) \<noteq> counter (snd z))"
    by (rule past_node_independent_iff_pair)
  also have "\<dots> \<longleftrightarrow> (\<exists>k. k < length xs \<and> k < length ys \<and> frame_name (xs ! k) = frame_name (ys ! k)
          \<and> counter (xs ! k) \<noteq> counter (ys ! k))"
    by (auto simp: set_zip)
  finally show ?thesis .
qed

lemma stacks_ok_iff:
  "stacks_ok items \<longleftrightarrow>
     (\<forall>(name, node) \<in> set items. node_type node = ''sample'' \<longrightarrow> cond_indep_stack node \<noteq> None)"
  by (simp add: stacks_ok_def list_all_iff)

lemma nested_trace_wf:
  "distinct (map fst (nodes nested_trace))" "stacks_ok (nodes nested_trace)"
  "edges nested_trace = {}"
  by (simp_all add: nested_trace_def stacks_ok_def sample_site_def)

section \<open>Claims about the edge pass\<close>

text \<open>
  Claim C1. The claim: a node classified as a subsample site never originates and never
  receives an edge of \<^verbatim>\<open>identify_dense_edges\<close>. The inner loop repeats the test of
  the outer loop on \<open>node\<close> instead of testing \<open>past_node\<close>, so a subsample site of
  type \<^verbatim>\<open>"sample"\<close> that precedes a sample site is the source of an edge: on the trace
  with the sites \<open>batch\<close> (classified as subsample) and \<open>a\<close>, the edge from \<open>batch\<close>
  to \<open>a\<close> is added.
\<close>

theorem subsample_site_originates_edge:
  "batch_is_subsample (sample_site ''batch'' [])
   \<and> map fst (nodes subsample_trace) = [''batch'', ''a'']
   \<and> identify_dense_edges batch_is_subsample subsample_trace
       = (subsample_trace\<lparr>edges := {(''batch'', ''a'')}\<rparr>, None)"
  by (simp add: identify_dense_edges_def subsample_trace_def batch_is_subsample_def
        sample_site_def add_edge_def)

text \<open>
  Claim C2. Side conditions on the trace, stated as hypotheses: the names are distinct
  (they are the keys of a mapping), every node of type \<^verbatim>\<open>"sample"\<close> has a
  \<^verbatim>\<open>cond_indep_stack\<close> (a read of a missing one raises), and there are no edges. Then
  the edge pass ends without error, and for two sample nodes \<open>P\<close> and \<open>N\<close>, neither
  classified as subsample, with \<open>P\<close> strictly before \<open>N\<close> in insertion order, the edge
  from \<open>P\<close> to \<open>N\<close> is present afterwards if and only if there is no position \<open>k\<close>, within
  the shorter of the two stacks, at which the frame of \<open>N\<close> and the frame of \<open>P\<close> have the
  same context name and a different counter. The witness is the example of the claim (no
  edge between \<open>x@0\<close> and \<open>x@1\<close>, an edge from each of them to \<open>y\<close>) and a second trace:
  an edge between two sites in the same iteration of a context, none between two sites that
  differ in an inner context, an edge between sites of contexts with different names.
\<close>

theorem dense_edge_iff_not_independent:
  assumes d: "distinct (map fst (nodes tr))"
    and ok: "\<forall>(name, node) \<in> set (nodes tr).
               node_type node = ''sample'' \<longrightarrow> cond_indep_stack node \<noteq> None"
    and e0: "edges tr = {}"
    and ij: "i < j" "j < length (nodes tr)"
    and P: "nodes tr ! i = (p, P)" "node_type P = ''sample''" "\<not> sub P"
           "cond_indep_stack P = Some ps"
    and N: "nodes tr ! j = (n, N)" "node_type N = ''sample''" "\<not> sub N"
           "cond_indep_stack N = Some ns"
  shows "snd (identify_dense_edges sub tr) = None \<and>
         ((p, n) \<in> edges (fst (identify_dense_edges sub tr))
            \<longleftrightarrow> \<not> (\<exists>k. k < length ns \<and> k < length ps
                        \<and> frame_name (ns ! k) = frame_name (ps ! k)
                        \<and> counter (ns ! k) \<noteq> counter (ps ! k)))"
proof -
  have ok': "stacks_ok (nodes tr)" using ok by (simp add: stacks_ok_iff)
  have Nin: "(n, N) \<in> set (nodes tr)" using nth_mem [OF ij(2)] N(1) by simp
  have "i < length (take j (nodes tr))" using ij by simp
  then have "take j (nodes tr) ! i \<in> set (take j (nodes tr))" by (rule nth_mem)
  then have Pin: "(p, P) \<in> set (take j (nodes tr))" using ij P(1) by simp
  have vis: "visited n (nodes tr) = take j (nodes tr)"
    by (rule visited_take [OF d ij(2) N(1) N(2)])
  have "(p, n) \<in> dense_edges sub (nodes tr) (nodes tr) \<longleftrightarrow> \<not> past_node_independent (zip ns ps)"
  proof
    assume "(p, n) \<in> dense_edges sub (nodes tr) (nodes tr)"
    then obtain node qs where a: "(n, node) \<in> set (nodes tr)" "cond_indep_stack node = Some qs"
      "p \<in> sources qs (visited n (nodes tr))"
      by (auto simp: dense_edges_def)
    have "node = N" by (rule distinct_fst_unique [OF d a(1) Nin])
    then have qs: "qs = ns" using a(2) N(4) by simp
    from a(3) obtain pnd ts where b: "(p, pnd) \<in> set (take j (nodes tr))"
      "cond_indep_stack pnd = Some ts" "\<not> past_node_independent (zip qs ts)"
      by (auto simp: sources_def vis)
    have "(p, pnd) \<in> set (nodes tr)" using b(1) by (rule in_set_takeD)
    moreover have "(p, P) \<in> set (nodes tr)" using Pin by (rule in_set_takeD)
    ultimately have "pnd = P" by (rule distinct_fst_unique [OF d])
    then show "\<not> past_node_independent (zip ns ps)" using b(2,3) qs P(4) by simp
  next
    assume "\<not> past_node_independent (zip ns ps)"
    then have "p \<in> sources ns (visited n (nodes tr))"
      using Pin P(2,4) by (auto simp: sources_def vis)
    then show "(p, n) \<in> dense_edges sub (nodes tr) (nodes tr)"
      using Nin N(2,3,4) by (auto simp: dense_edges_def)
  qed
  then show ?thesis
    by (simp add: identify_dense_edges_result [OF ok'] e0 past_node_independent_zip)
qed


theorem dense_edge_iff_not_independent_witness:
  "distinct (map fst (nodes plate_trace)) \<and> stacks_ok (nodes plate_trace)
   \<and> edges plate_trace = {}
   \<and> snd (identify_dense_edges (\<lambda>nd. False) plate_trace) = None
   \<and> (''x@0'', ''x@1'') \<notin> edges (fst (identify_dense_edges (\<lambda>nd. False) plate_trace))
   \<and> (''x@0'', ''y'') \<in> edges (fst (identify_dense_edges (\<lambda>nd. False) plate_trace))
   \<and> (''x@1'', ''y'') \<in> edges (fst (identify_dense_edges (\<lambda>nd. False) plate_trace))
   \<and> distinct (map fst (nodes nested_trace)) \<and> stacks_ok (nodes nested_trace)
   \<and> edges nested_trace = {}
   \<and> (''u'', ''v'') \<in> edges (fst (identify_dense_edges (\<lambda>nd. False) nested_trace))
   \<and> (''v'', ''w'') \<notin> edges (fst (identify_dense_edges (\<lambda>nd. False) nested_trace))
   \<and> (''u'', ''z'') \<in> edges (fst (identify_dense_edges (\<lambda>nd. False) nested_trace))"
proof -
  note wf = plate_trace_wf
  have okp: "\<forall>(name, node) \<in> set (nodes plate_trace).
               node_type node = ''sample'' \<longrightarrow> cond_indep_stack node \<noteq> None"
    using wf(2) by (simp add: stacks_ok_iff)
  note wfn = nested_trace_wf
  have okn: "\<forall>(name, node) \<in> set (nodes nested_trace).
               node_type node = ''sample'' \<longrightarrow> cond_indep_stack node \<noteq> None"
    using wfn(2) by (simp add: stacks_ok_iff)
  let ?f = "\<lambda>nm c. \<lparr>frame_name = nm, counter = c\<rparr>"
  have a: "snd (identify_dense_edges (\<lambda>nd. False) plate_trace) = None
           \<and> (''x@0'', ''x@1'') \<notin> edges (fst (identify_dense_edges (\<lambda>nd. False) plate_trace))"
    using dense_edge_iff_not_independent [OF wf(1) okp wf(3), where i = 0 and j = 1
        and p = "''x@0''" and P = "sample_site ''x@0'' [?f ''plate'' 0]"
        and sub = "\<lambda>nd. False" and ps = "[?f ''plate'' 0]" and n = "''x@1''"
        and N = "sample_site ''x@1'' [?f ''plate'' 1]" and ns = "[?f ''plate'' 1]"]
    by (simp add: plate_trace_def sample_site_def)
  have b: "(''x@0'', ''y'') \<in> edges (fst (identify_dense_edges (\<lambda>nd. False) plate_trace))"
    using dense_edge_iff_not_independent [OF wf(1) okp wf(3), where i = 0 and j = 2
        and p = "''x@0''" and P = "sample_site ''x@0'' [?f ''plate'' 0]"
        and sub = "\<lambda>nd. False" and ps = "[?f ''plate'' 0]" and n = "''y''"
        and N = "sample_site ''y'' []" and ns = "[]"]
    by (simp add: plate_trace_def sample_site_def)
  have c: "(''x@1'', ''y'') \<in> edges (fst (identify_dense_edges (\<lambda>nd. False) plate_trace))"
    using dense_edge_iff_not_independent [OF wf(1) okp wf(3), where i = 1 and j = 2
        and p = "''x@1''" and P = "sample_site ''x@1'' [?f ''plate'' 1]"
        and sub = "\<lambda>nd. False" and ps = "[?f ''plate'' 1]" and n = "''y''"
        and N = "sample_site ''y'' []" and ns = "[]"]
    by (simp add: plate_trace_def sample_site_def)
  have d: "(''u'', ''v'') \<in> edges (fst (identify_dense_edges (\<lambda>nd. False) nested_trace))"
    using dense_edge_iff_not_independent [OF wfn(1) okn wfn(3), where i = 0 and j = 1
        and p = "''u''" and P = "sample_site ''u'' [?f ''plate'' 0]"
        and sub = "\<lambda>nd. False" and ps = "[?f ''plate'' 0]" and n = "''v''"
        and N = "sample_site ''v'' [?f ''plate'' 0, ?f ''inner'' 2]"
        and ns = "[?f ''plate'' 0, ?f ''inner'' 2]"]
    by (simp add: nested_trace_def sample_site_def)
  have e: "(''v'', ''w'') \<notin> edges (fst (identify_dense_edges (\<lambda>nd. False) nested_trace))"
    using dense_edge_iff_not_independent [OF wfn(1) okn wfn(3), where i = 1 and j = 2
        and p = "''v''" and P = "sample_site ''v'' [?f ''plate'' 0, ?f ''inner'' 2]"
        and sub = "\<lambda>nd. False" and ps = "[?f ''plate'' 0, ?f ''inner'' 2]" and n = "''w''"
        and N = "sample_site ''w'' [?f ''plate'' 0, ?f ''inner'' 3]"
        and ns = "[?f ''plate'' 0, ?f ''inner'' 3]"]
    by (auto simp: nested_trace_def sample_site_def intro: exI [of _ 1])
  have f: "(''u'', ''z'') \<in> edges (fst (identify_dense_edges (\<lambda>nd. False) nested_trace))"
    using dense_edge_iff_not_independent [OF wfn(1) okn wfn(3), where i = 0 and j = 3
        and p = "''u''" and P = "sample_site ''u'' [?f ''plate'' 0]"
        and sub = "\<lambda>nd. False" and ps = "[?f ''plate'' 0]" and n = "''z''"
        and N = "sample_site ''z'' [?f ''other'' 5]" and ns = "[?f ''other'' 5]"]
    by (simp add: nested_trace_def sample_site_def)
  show ?thesis using wf wfn a b c d e f by simp
qed

section \<open>Properties of an invocation\<close>

subsection \<open>The run and the exit hook, on the live trace\<close>

lemma self_trace_assign:
  "self_trace s = Inr (t, tr) \<Longrightarrow> self_trace (assign t tr' s) = Inr (t, tr')"
  by (auto simp: self_trace_def assign_def split: option.splits if_splits)

lemma assign_same:
  "self_trace s = Inr (t, tr) \<Longrightarrow> assign t tr s = s"
  by (auto simp: self_trace_def assign_def split: option.splits if_splits)

lemma assign_assign: "assign t tr2 (assign t tr1 s) = assign t tr2 s"
  by (simp add: assign_def)

lemma assign_fields:
  "msngr (assign t tr s) = msngr s"
  "PYRO_STACK (assign t tr s) = PYRO_STACK s"
  "poutine_trace (assign t tr s) = poutine_trace s"
  "store (assign t tr s) = (store s)[t := tr]"
  by (simp_all add: assign_def)

lemma site_of_msg_value: "(site_of_msg m)\<lparr>node_value := Some (msg_value m)\<rparr> = site_of_msg m"
  by (simp add: site_of_msg_def)

lemma apply_stack_live:
  assumes "self_trace s = Inr (t, tr)" "This_msngr \<in> set (PYRO_STACK s)"
  shows "apply_stack s m =
           (case record_effect tr m of
              Inl e \<Rightarrow> (s, Some e)
            | Inr tr' \<Rightarrow> (assign t tr' s, None))"
  using assms
  by (auto simp: apply_stack_def process_message_def postprocess_message_def
        self_trace_add_node_def record_effect_def site_of_msg_value Let_def
        split: sum.splits effect_kind.splits)

lemma run_live:
  "self_trace s = Inr (t, tr) \<Longrightarrow> This_msngr \<in> set (PYRO_STACK s) \<Longrightarrow>
   run c s = (assign t (fst (record_all c tr)) s, snd (record_all c tr))"
proof (induction c arbitrary: s tr)
  case (Done ret)
  then show ?case by (simp add: assign_same)
next
  case (Fail e)
  then show ?case by (simp add: assign_same)
next
  case (Perform m rest)
  show ?case
  proof (cases "record_effect tr m")
    case (Inl e)
    then show ?thesis
      using Perform.prems by (simp add: apply_stack_live [OF Perform.prems] assign_same)
  next
    case (Inr tr')
    have st: "self_trace (assign t tr' s) = Inr (t, tr')"
      using Perform.prems(1) by (rule self_trace_assign)
    have inst: "This_msngr \<in> set (PYRO_STACK (assign t tr' s))"
      using Perform.prems(2) by (simp add: assign_fields)
    show ?thesis
      using Inr Perform.IH [OF st inst]
      by (simp add: apply_stack_live [OF Perform.prems] assign_assign)
  qed
qed

lemma record_effect_fields:
  "record_effect tr m = Inr tr' \<Longrightarrow>
     nodes tr' = nodes tr @ [(msg_name m, site_of_msg m)] \<and> edges tr' = edges tr
     \<and> trace_graph_type tr' = trace_graph_type tr \<and> map_of (nodes tr) (msg_name m) = None"
  by (auto simp: record_effect_def add_node_def contains_def split: sum.splits if_splits)

lemma stacks_ok_append: "stacks_ok (xs @ ys) \<longleftrightarrow> stacks_ok xs \<and> stacks_ok ys"
  by (simp add: stacks_ok_def)

lemma stacks_ok_site: "stacks_ok [(n, site_of_msg m)]"
  by (simp add: stacks_ok_def site_of_msg_def)

lemma record_all_fields:
  "edges (fst (record_all c tr)) = edges tr
   \<and> trace_graph_type (fst (record_all c tr)) = trace_graph_type tr
   \<and> (stacks_ok (nodes tr) \<longrightarrow> stacks_ok (nodes (fst (record_all c tr))))
   \<and> (distinct (map fst (nodes tr)) \<longrightarrow> distinct (map fst (nodes (fst (record_all c tr)))))
   \<and> take (length (nodes tr)) (nodes (fst (record_all c tr))) = nodes tr"
proof (induction c arbitrary: tr)
  case (Done ret)
  show ?case by simp
next
  case (Fail e)
  show ?case by simp
next
  case (Perform m rest)
  show ?case
  proof (cases "record_effect tr m")
    case (Inl e)
    then show ?thesis by simp
  next
    case (Inr tr')
    note f = record_effect_fields [OF Inr]
    have nin: "msg_name m \<notin> fst ` set (nodes tr)"
      using f by (simp add: map_of_eq_None_iff)
    have "take (length (nodes tr)) (nodes (fst (record_all rest tr')))
            = take (length (nodes tr)) (take (length (nodes tr')) (nodes (fst (record_all rest tr'))))"
      using f by (simp add: min_def)
    also have "\<dots> = nodes tr" using Perform.IH [of tr'] f by simp
    finally have tk: "take (length (nodes tr)) (nodes (fst (record_all rest tr'))) = nodes tr" .
    show ?thesis
      using Inr Perform.IH [of tr'] f nin tk
      by (simp add: stacks_ok_append stacks_ok_site)
  qed
qed

lemma exit_trace_fields:
  "nodes (exit_trace sub g tr) = nodes tr"
  "trace_graph_type (exit_trace sub g tr) = trace_graph_type tr"
  using outer_loop_nodes [of sub "nodes tr" tr]
  by (simp_all add: exit_trace_def identify_dense_edges_def)

lemma exit_trace_flat: "g \<noteq> ''dense'' \<Longrightarrow> exit_trace sub g tr = tr"
  by (simp add: exit_trace_def)

lemma TraceMessenger_exit_live:
  assumes st: "self_trace s = Inr (t, tr)" and ok: "stacks_ok (nodes tr)"
    and top: "PYRO_STACK s = stack @ [This_msngr]"
  shows "TraceMessenger_exit sub s =
           ((assign t (exit_trace sub (graph_type (msngr s)) tr) s)\<lparr>PYRO_STACK := stack\<rparr>, None)"
proof (cases "graph_type (msngr s) = ''dense''")
  case True
  show ?thesis
    using True st top
    by (simp add: TraceMessenger_exit_def identify_dense_edges_result [OF ok] exit_trace_def
          uninstall_def assign_fields)
next
  case False
  show ?thesis
    using False st top
    by (simp add: TraceMessenger_exit_def exit_trace_def uninstall_def assign_same)
qed

lemma Poutine_call_live:
  assumes st: "self_trace s = Inr (t, tr)" and ok: "stacks_ok (nodes tr)"
  shows "Poutine_call sub c s =
           (assign t (exit_trace sub (graph_type (msngr s)) (fst (record_all c tr))) s,
            snd (record_all c tr))"
proof -
  let ?s1 = "install s"
  have "self_trace ?s1 = self_trace s"
    by (simp add: self_trace_def install_def split: option.splits)
  then have st1: "self_trace ?s1 = Inr (t, tr)" using st by simp
  have in1: "This_msngr \<in> set (PYRO_STACK ?s1)" by (simp add: install_def)
  let ?tr1 = "fst (record_all c tr)"
  let ?s2 = "assign t ?tr1 ?s1"
  have run: "run c ?s1 = (?s2, snd (record_all c tr))"
    by (rule run_live [OF st1 in1])
  have st2: "self_trace ?s2 = Inr (t, ?tr1)" using st1 by (rule self_trace_assign)
  have ok2: "stacks_ok (nodes ?tr1)" using record_all_fields [of c tr] ok by simp
  have top: "PYRO_STACK ?s2 = PYRO_STACK s @ [This_msngr]"
    by (simp add: assign_fields install_def)
  have ex: "TraceMessenger_exit sub ?s2 =
              ((assign t (exit_trace sub (graph_type (msngr ?s2)) ?tr1) ?s2)\<lparr>PYRO_STACK := PYRO_STACK s\<rparr>, None)"
    by (rule TraceMessenger_exit_live [OF st2 ok2 top])
  have fin: "(assign t (exit_trace sub (graph_type (msngr ?s2)) ?tr1) ?s2)\<lparr>PYRO_STACK := PYRO_STACK s\<rparr>
               = assign t (exit_trace sub (graph_type (msngr s)) ?tr1) s"
    by (simp add: assign_def install_def)
  show ?thesis
    by (simp add: Poutine_call_def run ex fin)
qed

lemma TracePoutine_call_eq:
  "TracePoutine_call sub fn args kwargs s =
     (\<lparr> msngr = (msngr s)\<lparr>trace := Some (length (store s))\<rparr>,
        poutine_trace = Some (length (store s)),
        store = store s @ [fst (traced sub (graph_type (msngr s)) (fn args kwargs) args kwargs)],
        PYRO_STACK = PYRO_STACK s \<rparr>,
      snd (traced sub (graph_type (msngr s)) (fn args kwargs) args kwargs))"
proof -
  let ?t = "length (store s)"
  let ?g = "graph_type (msngr s)"
  let ?s3 = "\<lparr> msngr = (msngr s)\<lparr>trace := Some ?t\<rparr>, poutine_trace = Some ?t,
               store = store s @ [Trace_init ?g], PYRO_STACK = PYRO_STACK s \<rparr> :: 'a state"
  let ?s4 = "\<lparr> msngr = (msngr s)\<lparr>trace := Some ?t\<rparr>, poutine_trace = Some ?t,
               store = store s @ [start_trace ?g args kwargs], PYRO_STACK = PYRO_STACK s \<rparr> :: 'a state"
  have a: "self_trace_add_node ?s3 ''_INPUT'' (INPUT_site args kwargs) = (?s4, None)"
    by (simp add: self_trace_add_node_def self_trace_def add_node_def contains_def
          Trace_init_def assign_def start_trace_def)
  have st4: "self_trace ?s4 = Inr (?t, start_trace ?g args kwargs)"
    by (simp add: self_trace_def)
  have ok4: "stacks_ok (nodes (start_trace ?g args kwargs))"
    by (simp add: start_trace_def stacks_ok_def INPUT_site_def)
  let ?c = "fn args kwargs"
  let ?tr1 = "fst (record_all ?c (start_trace ?g args kwargs))"
  let ?tr2 = "exit_trace sub ?g ?tr1"
  let ?s5 = "assign ?t ?tr2 ?s4"
  have pc: "Poutine_call sub ?c ?s4 = (?s5, snd (record_all ?c (start_trace ?g args kwargs)))"
    using Poutine_call_live [OF st4 ok4, of sub ?c] by simp
  have st5: "self_trace ?s5 = Inr (?t, ?tr2)" using st4 by (rule self_trace_assign)
  have s5: "?s5 = \<lparr> msngr = (msngr s)\<lparr>trace := Some ?t\<rparr>, poutine_trace = Some ?t,
               store = store s @ [?tr2], PYRO_STACK = PYRO_STACK s \<rparr>"
    by (simp add: assign_def)
  have ret: "\<And>site. self_trace_add_node ?s5 ''_RETURN'' site =
       (case add_node ?tr2 ''_RETURN'' site of
          Inl e \<Rightarrow> (?s5, Some e)
        | Inr tr3 \<Rightarrow> (\<lparr> msngr = (msngr s)\<lparr>trace := Some ?t\<rparr>, poutine_trace = Some ?t,
               store = store s @ [tr3], PYRO_STACK = PYRO_STACK s \<rparr>, None))"
  proof -
    fix site
    have "self_trace_add_node ?s5 ''_RETURN'' site =
       (case add_node ?tr2 ''_RETURN'' site of
          Inl e \<Rightarrow> (?s5, Some e)
        | Inr tr3 \<Rightarrow> (assign ?t tr3 ?s5, None))"
      by (simp add: self_trace_add_node_def st5 split: sum.splits)
    moreover have "\<And>tr3. assign ?t tr3 ?s5 = \<lparr> msngr = (msngr s)\<lparr>trace := Some ?t\<rparr>,
               poutine_trace = Some ?t, store = store s @ [tr3], PYRO_STACK = PYRO_STACK s \<rparr>"
      by (simp add: assign_def)
    ultimately show "self_trace_add_node ?s5 ''_RETURN'' site =
       (case add_node ?tr2 ''_RETURN'' site of
          Inl e \<Rightarrow> (?s5, Some e)
        | Inr tr3 \<Rightarrow> (\<lparr> msngr = (msngr s)\<lparr>trace := Some ?t\<rparr>, poutine_trace = Some ?t,
               store = store s @ [tr3], PYRO_STACK = PYRO_STACK s \<rparr>, None))"
      by (simp split: sum.splits)
  qed
  note ret2 = ret [unfolded s5]
  have s3: "s\<lparr>store := store s @ [Trace_init ?g],
               msngr := (msngr s)\<lparr>trace := Some ?t\<rparr>, poutine_trace := Some ?t\<rparr> = ?s3"
    by simp
  have unf: "TracePoutine_call sub fn args kwargs s =
      (case Poutine_call sub ?c ?s4 of
         (s5, Inl e) \<Rightarrow> (s5, Inl e)
       | (s5, Inr ret) \<Rightarrow>
           (case self_trace_add_node s5 ''_RETURN'' (RETURN_site ret) of
              (s6, Some e) \<Rightarrow> (s6, Inl e)
            | (s6, None) \<Rightarrow> (s6, Inr ret)))"
    using a unfolding RETURN_site_def INPUT_site_def
    by (simp add: TracePoutine_call_def alloc_def s3)
  show ?thesis
  proof (cases "snd (record_all ?c (start_trace ?g args kwargs))")
    case (Inl e)
    then show ?thesis by (simp add: unf pc traced_def s5 Let_def)
  next
    case (Inr r)
    show ?thesis
    proof (cases "add_node ?tr2 ''_RETURN'' (RETURN_site r)")
      case Inl
      then show ?thesis using Inr by (simp add: unf pc traced_def ret2 s5 Let_def)
    next
      case (Inr tr3)
      then show ?thesis using \<open>snd (record_all ?c (start_trace ?g args kwargs)) = Inr r\<close>
        by (simp add: unf pc traced_def ret2 s5 Let_def)
    qed
  qed
qed

lemma self_trace_after_call:
  "self_trace (fst (TracePoutine_call sub fn args kwargs s)) =
     Inr (length (store s), fst (traced sub (graph_type (msngr s)) (fn args kwargs) args kwargs))"
  by (simp add: TracePoutine_call_eq self_trace_def)

lemma start_trace_fields:
  "nodes (start_trace g args kwargs) = [(''_INPUT'', INPUT_site args kwargs)]"
  "edges (start_trace g args kwargs) = {}"
  "trace_graph_type (start_trace g args kwargs) = g"
  by (simp_all add: start_trace_def)

lemma add_node_fields:
  "add_node tr n site = Inr tr' \<Longrightarrow>
     nodes tr' = nodes tr @ [(n, site)] \<and> edges tr' = edges tr
     \<and> trace_graph_type tr' = trace_graph_type tr \<and> map_of (nodes tr) n = None"
  by (auto simp: add_node_def contains_def split: if_splits)

lemma traced_fields:
  "trace_graph_type (fst (traced sub g c args kwargs)) = g"
  "g \<noteq> ''dense'' \<Longrightarrow> edges (fst (traced sub g c args kwargs)) = {}"
proof -
  let ?tr1 = "fst (record_all c (start_trace g args kwargs))"
  have g1: "trace_graph_type (exit_trace sub g ?tr1) = g"
    using record_all_fields [of c "start_trace g args kwargs"]
    by (simp add: exit_trace_fields start_trace_fields)
  show "trace_graph_type (fst (traced sub g c args kwargs)) = g"
    using g1 by (auto simp: traced_def Let_def split: sum.splits dest: add_node_fields)
  assume "g \<noteq> ''dense''"
  then have e1: "edges (exit_trace sub g ?tr1) = {}"
    using record_all_fields [of c "start_trace g args kwargs"]
    by (simp add: exit_trace_flat start_trace_fields)
  show "edges (fst (traced sub g c args kwargs)) = {}"
    using e1 by (auto simp: traced_def Let_def split: sum.splits dest: add_node_fields)
qed

lemma TraceMessenger_reset_store:
  "\<exists>x. store (fst (TraceMessenger_reset s)) = store s @ [x]
       \<and> trace_graph_type x = graph_type (msngr s) \<and> edges x = {}"
  by (auto simp: TraceMessenger_reset_def alloc_def assign_def add_node_def Trace_init_def
        contains_def split: sum.splits option.splits prod.splits)

lemma TraceMessenger_reset_msngr:
  "graph_type (msngr (fst (TraceMessenger_reset s))) = graph_type (msngr s)
   \<and> PYRO_STACK (fst (TraceMessenger_reset s)) = PYRO_STACK s"
  by (auto simp: TraceMessenger_reset_def alloc_def assign_def add_node_def Trace_init_def
        contains_def split: sum.splits option.splits prod.splits)

lemma TraceMessenger_reset_live:
  "TraceMessenger_reset s = (s', None) \<Longrightarrow>
     self_trace s' = Inr (length (store s), last (store s')) \<and> length (store s') = Suc (length (store s))"
  by (auto simp: TraceMessenger_reset_def alloc_def assign_def add_node_def Trace_init_def
        contains_def self_trace_def split: sum.splits option.splits prod.splits if_splits)

section \<open>Claims about the handler and the scope\<close>

text \<open>
  Claim C10. Constructing the handler with \<open>None\<close> gives \<open>graph_type\<close> \<^verbatim>\<open>"flat"\<close>;
  a string other than \<^verbatim>\<open>"flat"\<close> and \<^verbatim>\<open>"dense"\<close> fails the assertion; an accepted
  string is stored as given; the same holds through \<^verbatim>\<open>TracePoutine.__init__\<close>. A call
  and a reset leave the handler's \<open>graph_type\<close> as it is, and the trace object each of
  them creates has the handler's \<open>graph_type\<close>.
\<close>

theorem graph_type_accepted:
  "TraceMessenger_init None = Inr \<lparr>graph_type = ''flat'', trace = None\<rparr>
   \<and> TracePoutine_init fn None = Inr (\<lparr>graph_type = ''flat'', trace = None\<rparr>, fn)
   \<and> (g \<noteq> ''flat'' \<and> g \<noteq> ''dense'' \<longrightarrow>
        TraceMessenger_init (Some g) = Inl AssertionError
        \<and> TracePoutine_init fn (Some g) = Inl AssertionError)
   \<and> (g = ''flat'' \<or> g = ''dense'' \<longrightarrow>
        TraceMessenger_init (Some g) = Inr \<lparr>graph_type = g, trace = None\<rparr>
        \<and> TracePoutine_init fn (Some g) = Inr (\<lparr>graph_type = g, trace = None\<rparr>, fn))
   \<and> graph_type (msngr (fst (TracePoutine_call sub fn args kwargs s))) = graph_type (msngr s)
   \<and> (\<exists>t tr. self_trace (fst (TracePoutine_call sub fn args kwargs s)) = Inr (t, tr)
          \<and> trace_graph_type tr = graph_type (msngr s))
   \<and> graph_type (msngr (fst (TraceMessenger_reset s))) = graph_type (msngr s)
   \<and> (\<exists>tr. store (fst (TraceMessenger_reset s)) = store s @ [tr]
          \<and> trace_graph_type tr = graph_type (msngr s))"
proof -
  have a: "TraceMessenger_init None = Inr \<lparr>graph_type = ''flat'', trace = None\<rparr>"
    by (simp add: TraceMessenger_init_def)
  have b: "g \<noteq> ''flat'' \<and> g \<noteq> ''dense'' \<longrightarrow> TraceMessenger_init (Some g) = Inl AssertionError"
    by (simp add: TraceMessenger_init_def)
  have c: "g = ''flat'' \<or> g = ''dense'' \<longrightarrow>
        TraceMessenger_init (Some g) = Inr \<lparr>graph_type = g, trace = None\<rparr>"
    by (auto simp: TraceMessenger_init_def)
  have d: "graph_type (msngr (fst (TracePoutine_call sub fn args kwargs s))) = graph_type (msngr s)"
    by (simp add: TracePoutine_call_eq)
  have e: "\<exists>t tr. self_trace (fst (TracePoutine_call sub fn args kwargs s)) = Inr (t, tr)
          \<and> trace_graph_type tr = graph_type (msngr s)"
    by (simp add: self_trace_after_call traced_fields)
  have f: "\<exists>tr. store (fst (TraceMessenger_reset s)) = store s @ [tr]
          \<and> trace_graph_type tr = graph_type (msngr s)"
    using TraceMessenger_reset_store [of s] by blast
  show ?thesis
    using a b c d e f TraceMessenger_reset_msngr [of s]
    by (simp add: TracePoutine_init_def)
qed

theorem graph_type_accepted_witness:
  "TraceMessenger_init (Some ''sparse'') = Inl AssertionError
   \<and> TracePoutine_init (\<lambda>a k. Done a) (Some ''sparse'') = (Inl AssertionError
        :: error + (TraceMessenger \<times> (unit \<Rightarrow> unit \<Rightarrow> unit computation)))
   \<and> TraceMessenger_init (Some ''dense'') = Inr \<lparr>graph_type = ''dense'', trace = None\<rparr>
   \<and> TraceMessenger_init None = Inr \<lparr>graph_type = ''flat'', trace = None\<rparr>"
  using graph_type_accepted [of "\<lambda>a k. Done a" "''sparse''" "\<lambda>nd. False" "()" "()"
          "initial_state \<lparr>graph_type = ''flat'', trace = None\<rparr> []"]
        graph_type_accepted [of "\<lambda>a k. Done a" "''dense''" "\<lambda>nd. False" "()" "()"
          "initial_state \<lparr>graph_type = ''flat'', trace = None\<rparr> []"]
  by simp

text \<open>
  Claim C6. For a handler with \<open>graph_type\<close> \<^verbatim>\<open>"flat"\<close>: after any invocation, ended
  by a result or by a failure, the live trace has no edges; the exit hook leaves every
  trace object as it is (the edge pass is not run); recording a message changes the edges
  of no trace object; a reset adds one trace object, without edges.
\<close>

theorem flat_trace_has_no_edges:
  "graph_type (msngr s) = ''flat'' \<Longrightarrow>
     (\<exists>t tr. self_trace (fst (TracePoutine_call sub fn args kwargs s)) = Inr (t, tr)
        \<and> edges tr = {})
     \<and> store (fst (TraceMessenger_exit sub s)) = store s
     \<and> map edges (store (fst (postprocess_message s m))) = map edges (store s)
     \<and> map edges (store (fst (TraceMessenger_reset s))) = map edges (store s) @ [{}]"
proof -
  assume flat: "graph_type (msngr s) = ''flat''"
  have a: "\<exists>t tr. self_trace (fst (TracePoutine_call sub fn args kwargs s)) = Inr (t, tr)
        \<and> edges tr = {}"
    using flat by (simp add: self_trace_after_call traced_fields)
  have b: "store (fst (TraceMessenger_exit sub s)) = store s"
    using flat by (simp add: TraceMessenger_exit_def uninstall_def)
  have c: "map edges (store (fst (postprocess_message s m))) = map edges (store s)"
    by (auto simp: postprocess_message_def self_trace_add_node_def self_trace_def assign_def
          add_node_def Let_def map_update list_update_same_conv
          split: sum.splits option.splits if_splits)
  have d: "map edges (store (fst (TraceMessenger_reset s))) = map edges (store s) @ [{}]"
    using TraceMessenger_reset_store [of s] by auto
  show ?thesis using a b c d by simp
qed

theorem flat_trace_has_no_edges_witness:
  "graph_type (msngr flat_state) = ''flat''
   \<and> (\<exists>t tr. self_trace (fst (TracePoutine_call (\<lambda>nd. False) two_samples () () flat_state))
                = Inr (t, tr) \<and> edges tr = {})"
  using flat_trace_has_no_edges [of flat_state "\<lambda>nd. False" two_samples "()" "()"]
  by (simp add: flat_state_def initial_state_def)

lemmas eval_defs =
  TracePoutine_call_eq traced_def start_trace_def INPUT_site_def RETURN_site_def
  record_effect_def pyro_sample_def pyro_param_def add_node_def contains_def site_of_msg_def
  exit_trace_def identify_dense_edges_def add_edge_def sample_msg_def param_msg_def
  initial_state_def Let_def

text \<open>
  Claim C5. The claim: every node of the trace of an invocation has a type among
  \<open>input\<close>, \<open>return\<close>, \<open>sample\<close>, \<open>param\<close> and the subsample marker, and the node
  recording the arguments has type \<open>input\<close>. \<^verbatim>\<open>TracePoutine.__call__\<close> writes the
  \<^verbatim>\<open>_INPUT\<close> node with \<^verbatim>\<open>type="args"\<close>, whereas \<^verbatim>\<open>_reset\<close> writes the same node
  with \<^verbatim>\<open>type="input"\<close>. The invocation of a computation with two sample sites leaves
  the nodes \<^verbatim>\<open>_INPUT\<close>, \<open>a\<close>, \<open>b\<close>, \<^verbatim>\<open>_RETURN\<close> in this order, with the types
  \<open>args\<close>, \<open>sample\<close>, \<open>sample\<close>, \<open>return\<close>; a reset of the handler after it
  creates a trace whose \<^verbatim>\<open>_INPUT\<close> node has the type \<open>input\<close>.
\<close>

theorem input_node_has_type_args:
  "map (\<lambda>(n, nd). (n, node_type nd))
     (nodes (store (fst (TracePoutine_call (\<lambda>nd. False) two_samples () () flat_state)) ! 0))
   = [(''_INPUT'', ''args''), (''a'', ''sample''), (''b'', ''sample''), (''_RETURN'', ''return'')]
   \<and> map (\<lambda>(n, nd). (n, node_type nd))
     (nodes (store (fst (TraceMessenger_reset
        (fst (TracePoutine_call (\<lambda>nd. False) two_samples () () flat_state)))) ! 1))
   = [(''_INPUT'', ''input'')]"
  by (simp add: eval_defs two_samples_def flat_state_def TraceMessenger_reset_def alloc_def
        assign_def self_trace_def Trace_init_def)

text \<open>The same for every invocation: the first node is \<^verbatim>\<open>_INPUT\<close>, of type \<open>args\<close>.\<close>

lemma input_node_type_general:
  "\<exists>t tr rest. self_trace (fst (TracePoutine_call sub fn args kwargs s)) = Inr (t, tr)
     \<and> nodes tr = (''_INPUT'', INPUT_site args kwargs) # rest
     \<and> node_type (INPUT_site args kwargs) = ''args''"
proof -
  let ?g = "graph_type (msngr s)"
  let ?tr1 = "fst (record_all (fn args kwargs) (start_trace ?g args kwargs))"
  have "take 1 (nodes ?tr1) = [(''_INPUT'', INPUT_site args kwargs)]"
    using record_all_fields [of "fn args kwargs" "start_trace ?g args kwargs"]
    by (simp add: start_trace_fields)
  then obtain rest where r: "nodes ?tr1 = (''_INPUT'', INPUT_site args kwargs) # rest"
    by (cases "nodes ?tr1") auto
  then have "\<exists>rest'. nodes (fst (traced sub ?g (fn args kwargs) args kwargs))
               = (''_INPUT'', INPUT_site args kwargs) # rest'"
    by (auto simp: traced_def Let_def exit_trace_fields split: sum.splits dest!: add_node_fields)
  then show ?thesis
    by (auto simp: self_trace_after_call INPUT_site_def)
qed

text \<open>
  Claim C9. Invoking the same scope twice with the same arguments (the second invocation
  starts in the state the first one leaves) gives the same outcome, and the two live traces,
  which are two different trace objects, are equal: same nodes in the same order, same
  edges, same \<open>graph_type\<close>. The computation is deterministic in that it is a function of
  its arguments.
\<close>

theorem tracing_is_deterministic:
  "snd (TracePoutine_call sub fn args kwargs (fst (TracePoutine_call sub fn args kwargs s)))
     = snd (TracePoutine_call sub fn args kwargs s)
   \<and> (\<exists>t1 t2 tr.
         self_trace (fst (TracePoutine_call sub fn args kwargs s)) = Inr (t1, tr)
         \<and> self_trace (fst (TracePoutine_call sub fn args kwargs
                              (fst (TracePoutine_call sub fn args kwargs s)))) = Inr (t2, tr)
         \<and> t1 \<noteq> t2)"
proof -
  let ?s1 = "fst (TracePoutine_call sub fn args kwargs s)"
  let ?T = "traced sub (graph_type (msngr s)) (fn args kwargs) args kwargs"
  have g: "graph_type (msngr ?s1) = graph_type (msngr s)"
    by (simp add: TracePoutine_call_eq)
  have l: "length (store ?s1) = Suc (length (store s))"
    by (simp add: TracePoutine_call_eq)
  have r1: "snd (TracePoutine_call sub fn args kwargs s) = snd ?T"
    by (simp add: TracePoutine_call_eq)
  have r2: "snd (TracePoutine_call sub fn args kwargs ?s1) = snd ?T"
    using g by (simp add: TracePoutine_call_eq [of sub fn args kwargs ?s1])
  have st1: "self_trace ?s1 = Inr (length (store s), fst ?T)"
    by (rule self_trace_after_call)
  have st2: "self_trace (fst (TracePoutine_call sub fn args kwargs ?s1))
               = Inr (Suc (length (store s)), fst ?T)"
    using g l by (simp add: self_trace_after_call [of sub fn args kwargs ?s1])
  show ?thesis
    using r1 r2 st1 st2 by simp
qed

lemma call_start_live:
  "self_trace (call_start s args kwargs)
     = Inr (length (store s), start_trace (graph_type (msngr s)) args kwargs)"
  "This_msngr \<in> set (PYRO_STACK (call_start s args kwargs))"
  by (simp_all add: call_start_def self_trace_def)

lemma run_call_start:
  "snd (run c (call_start s args kwargs))
     = snd (record_all c (start_trace (graph_type (msngr s)) args kwargs))"
  by (simp add: run_live [OF call_start_live])

lemma traced_failure:
  "snd (record_all c (start_trace g args kwargs)) = Inl e \<Longrightarrow>
   snd (traced sub g c args kwargs) = Inl e"
  by (simp add: traced_def Let_def)

lemma install_fields:
  "self_trace (install s) = self_trace s" "This_msngr \<in> set (PYRO_STACK (install s))"
  by (simp_all add: self_trace_def install_def split: option.splits)

text \<open>
  \<^verbatim>\<open>TracePoutine.__call__\<close> read as a whole: the bound computation runs from the state
  \<open>call_start\<close>, then the exit hook runs, then the \<^verbatim>\<open>_RETURN\<close> node is written if the
  computation returned.
\<close>

lemma TracePoutine_call_run:
  "TracePoutine_call sub fn args kwargs s =
     (case run (fn args kwargs) (call_start s args kwargs) of
        (s1, r) \<Rightarrow>
          (case TraceMessenger_exit sub s1 of
             (s2, Some e) \<Rightarrow> (s2, Inl e)
           | (s2, None) \<Rightarrow>
               (case r of
                  Inl e \<Rightarrow> (s2, Inl e)
                | Inr ret \<Rightarrow>
                    (case self_trace_add_node s2 ''_RETURN'' (RETURN_site ret) of
                       (s3, Some e) \<Rightarrow> (s3, Inl e)
                     | (s3, None) \<Rightarrow> (s3, Inr ret)))))"
proof -
  let ?g = "graph_type (msngr s)"
  let ?t = "length (store s)"
  let ?c = "fn args kwargs"
  let ?cs = "call_start s args kwargs"
  let ?tr1 = "fst (record_all ?c (start_trace ?g args kwargs))"
  let ?r = "snd (record_all ?c (start_trace ?g args kwargs))"
  let ?s1 = "assign ?t ?tr1 ?cs"
  have run: "run ?c ?cs = (?s1, ?r)"
    by (rule run_live [OF call_start_live])
  have st1: "self_trace ?s1 = Inr (?t, ?tr1)"
    using call_start_live(1) by (rule self_trace_assign)
  have ok1: "stacks_ok (nodes ?tr1)"
    using record_all_fields [of ?c "start_trace ?g args kwargs"]
    by (simp add: start_trace_def stacks_ok_def INPUT_site_def)
  have top: "PYRO_STACK ?s1 = PYRO_STACK s @ [This_msngr]"
    by (simp add: assign_fields call_start_def)
  let ?tr2 = "exit_trace sub ?g ?tr1"
  let ?s2 = "\<lparr> msngr = (msngr s)\<lparr>trace := Some ?t\<rparr>, poutine_trace = Some ?t,
               store = store s @ [?tr2], PYRO_STACK = PYRO_STACK s \<rparr> :: 'a state"
  have "TraceMessenger_exit sub ?s1 =
          ((assign ?t (exit_trace sub (graph_type (msngr ?s1)) ?tr1) ?s1)\<lparr>PYRO_STACK := PYRO_STACK s\<rparr>, None)"
    by (rule TraceMessenger_exit_live [OF st1 ok1 top])
  moreover have "(assign ?t (exit_trace sub (graph_type (msngr ?s1)) ?tr1) ?s1)\<lparr>PYRO_STACK := PYRO_STACK s\<rparr> = ?s2"
    by (simp add: assign_def call_start_def)
  ultimately have ex: "TraceMessenger_exit sub ?s1 = (?s2, None)" by simp
  have st2: "self_trace ?s2 = Inr (?t, ?tr2)" by (simp add: self_trace_def)
  have ret: "\<And>site. self_trace_add_node ?s2 ''_RETURN'' site =
       (case add_node ?tr2 ''_RETURN'' site of
          Inl e \<Rightarrow> (?s2, Some e)
        | Inr tr3 \<Rightarrow> (\<lparr> msngr = (msngr s)\<lparr>trace := Some ?t\<rparr>, poutine_trace = Some ?t,
               store = store s @ [tr3], PYRO_STACK = PYRO_STACK s \<rparr>, None))"
    by (simp add: self_trace_add_node_def st2 assign_def split: sum.splits)
  show ?thesis
  proof (cases ?r)
    case (Inl e)
    then show ?thesis
      by (simp add: run ex TracePoutine_call_eq traced_def Let_def)
  next
    case (Inr v)
    show ?thesis
    proof (cases "add_node ?tr2 ''_RETURN'' (RETURN_site v)")
      case Inl
      then show ?thesis using Inr
        by (simp add: run ex ret TracePoutine_call_eq traced_def Let_def)
    next
      case (Inr tr3)
      then show ?thesis using \<open>?r = Inr v\<close>
        by (simp add: run ex ret TracePoutine_call_eq traced_def Let_def)
    qed
  qed
qed

text \<open>
  Claim C8. The handler is on top of the execution stack while the bound computation
  runs; after the invocation the execution stack is what it was before, whether the
  invocation ends by a result or by a failure; and a failure \<open>e\<close> of the run of the bound
  computation is the failure of the invocation. The same for the scope alone, on a handler
  whose live trace is well-keyed for the edge pass.
\<close>

theorem scope_is_exception_safe:
  "PYRO_STACK (call_start s args kwargs) = PYRO_STACK s @ [This_msngr]
   \<and> PYRO_STACK (fst (TracePoutine_call sub fn args kwargs s)) = PYRO_STACK s
   \<and> (snd (run (fn args kwargs) (call_start s args kwargs)) = Inl e
        \<longrightarrow> snd (TracePoutine_call sub fn args kwargs s) = Inl e)
   \<and> (self_trace s0 = Inr (t, tr) \<and> stacks_ok (nodes tr) \<and> snd (run c (install s0)) = Inl e
        \<longrightarrow> snd (Poutine_call sub c s0) = Inl e
            \<and> PYRO_STACK (fst (Poutine_call sub c s0)) = PYRO_STACK s0)"
proof -
  have a: "PYRO_STACK (call_start s args kwargs) = PYRO_STACK s @ [This_msngr]"
    by (simp add: call_start_def)
  have b: "PYRO_STACK (fst (TracePoutine_call sub fn args kwargs s)) = PYRO_STACK s"
    by (simp add: TracePoutine_call_eq)
  have c: "snd (run (fn args kwargs) (call_start s args kwargs)) = Inl e
        \<longrightarrow> snd (TracePoutine_call sub fn args kwargs s) = Inl e"
    by (simp add: run_call_start TracePoutine_call_eq traced_failure)
  have d: "self_trace s0 = Inr (t, tr) \<and> stacks_ok (nodes tr) \<and> snd (run c (install s0)) = Inl e
        \<longrightarrow> snd (Poutine_call sub c s0) = Inl e
            \<and> PYRO_STACK (fst (Poutine_call sub c s0)) = PYRO_STACK s0"
  proof (intro impI, elim conjE)
    assume st: "self_trace s0 = Inr (t, tr)" and ok: "stacks_ok (nodes tr)"
      and f: "snd (run c (install s0)) = Inl e"
    have st1: "self_trace (install s0) = Inr (t, tr)" using st by (simp add: install_fields)
    have "snd (record_all c tr) = Inl e"
      using f run_live [OF st1 install_fields(2), of c] by simp
    then show "snd (Poutine_call sub c s0) = Inl e
            \<and> PYRO_STACK (fst (Poutine_call sub c s0)) = PYRO_STACK s0"
      by (simp add: Poutine_call_live [OF st ok] assign_fields)
  qed
  show ?thesis using a b c d by blast
qed

lemma live_state_eq:
  "live_state =
     \<lparr> msngr = \<lparr>graph_type = ''dense'', trace = Some 0\<rparr>, poutine_trace = Some 0,
       store = [\<lparr> nodes = [(''_INPUT'', INPUT_site () ()),
                            (''a'', site_of_msg (sample_msg ''a'' [])),
                            (''b'', site_of_msg (sample_msg ''b'' [])),
                            (''_RETURN'', RETURN_site ())],
                   edges = {(''a'', ''b'')}, trace_graph_type = ''dense'' \<rparr>],
       PYRO_STACK = [Other_msngr 3] \<rparr>"
  by (simp add: live_state_def two_samples_def dense_state_def eval_defs)

theorem scope_is_exception_safe_witness:
  "snd (run (failing_computation () ()) (call_start dense_state () ()))
     = Inl (ComputationFailure 7)
   \<and> PYRO_STACK (call_start dense_state () ()) = [Other_msngr 3, This_msngr]
   \<and> PYRO_STACK (fst (TracePoutine_call (\<lambda>nd. False) failing_computation () () dense_state))
       = [Other_msngr 3]
   \<and> snd (TracePoutine_call (\<lambda>nd. False) failing_computation () () dense_state)
       = Inl (ComputationFailure 7)
   \<and> snd (run (Fail (ComputationFailure 7)) (install live_state)) = Inl (ComputationFailure 7)
   \<and> snd (Poutine_call (\<lambda>nd. False) (Fail (ComputationFailure 7)) live_state)
       = Inl (ComputationFailure 7)
   \<and> PYRO_STACK (fst (Poutine_call (\<lambda>nd. False) (Fail (ComputationFailure 7)) live_state))
       = [Other_msngr 3]"
proof -
  have f: "snd (run (failing_computation () ()) (call_start dense_state () ()))
     = Inl (ComputationFailure 7)"
    by (subst run_call_start) (simp add: failing_computation_def dense_state_def eval_defs)
  have st: "self_trace live_state = Inr (0, store live_state ! 0)"
    by (simp add: live_state_eq self_trace_def)
  have ok: "stacks_ok (nodes (store live_state ! 0))"
    by (simp add: live_state_eq stacks_ok_def eval_defs)
  have stk: "PYRO_STACK live_state = [Other_msngr 3]" "PYRO_STACK dense_state = [Other_msngr 3]"
    by (simp_all add: live_state_eq dense_state_def initial_state_def)
  show ?thesis
    using f st ok stk
      scope_is_exception_safe [of dense_state "()" "()" "\<lambda>nd. False" failing_computation
        "ComputationFailure 7" live_state 0 "store live_state ! 0" "Fail (ComputationFailure 7)"]
    by simp
qed

lemma held_reset: "held c x s \<Longrightarrow> held c x (fst (TraceMessenger_reset s))"
  by (auto simp: held_def TraceMessenger_reset_def alloc_def assign_def add_node_def
        Trace_init_def contains_def self_trace_def nth_append
        split: sum.splits option.splits prod.splits if_splits)

lemma held_call: "held c x s \<Longrightarrow> held c x (fst (TracePoutine_call sub fn args kwargs s))"
  by (auto simp: held_def TracePoutine_call_eq nth_append)

lemma held_record: "held c x s \<Longrightarrow> held c x (fst (postprocess_message s m))"
  by (auto simp: held_def postprocess_message_def self_trace_add_node_def self_trace_def
        assign_def Let_def split: sum.splits option.splits if_splits)

lemma held_later: "held c x s \<Longrightarrow> held c x (later sub ops s)"
proof (induction ops arbitrary: s)
  case Nil
  then show ?case by simp
next
  case (Cons op ops)
  then show ?case
    by (cases op) (simp_all add: held_reset held_call held_record)
qed

lemma copy_eq: "copy tr = tr"
  by (simp add: copy_def)

lemma get_trace_held:
  "TraceMessenger_get_trace s = (s1, Inr c) \<Longrightarrow>
     \<exists>t tr. self_trace s = Inr (t, tr) \<and> t \<noteq> c \<and> held c tr s1"
  by (auto simp: TraceMessenger_get_trace_def alloc_def held_def self_trace_def copy_eq
        split: sum.splits option.splits if_splits)

text \<open>
  Claim C7. When \<^verbatim>\<open>get_trace\<close> returns, its result refers to a trace object other than
  the live one, with the nodes and the edges of the live trace. After any later resets of
  the handler, invocations and recordings into the live trace, in any number and order, the
  object it refers to is unchanged: same nodes, same edges.
\<close>

theorem returned_copy_is_unaffected:
  "TraceMessenger_get_trace s = (s1, Inr c) \<Longrightarrow>
     (\<exists>t tr. self_trace s = Inr (t, tr) \<and> t \<noteq> c \<and> store s1 ! c = tr)
     \<and> store (fst (TraceMessenger_reset s1)) ! c = store s1 ! c
     \<and> store (fst (TracePoutine_call sub fn args kwargs s1)) ! c = store s1 ! c
     \<and> store (later sub ops s1) ! c = store s1 ! c"
proof -
  assume g: "TraceMessenger_get_trace s = (s1, Inr c)"
  then obtain t tr where h: "self_trace s = Inr (t, tr)" "t \<noteq> c" "held c tr s1"
    using get_trace_held by blast
  have x: "store s1 ! c = tr" using h(3) by (simp add: held_def)
  have "held c tr (fst (TraceMessenger_reset s1))" using h(3) by (rule held_reset)
  moreover have "held c tr (fst (TracePoutine_call sub fn args kwargs s1))"
    using h(3) by (rule held_call)
  moreover have "held c tr (later sub ops s1)" using h(3) by (rule held_later)
  ultimately show ?thesis using h(1,2) x by (simp add: held_def)
qed

theorem returned_copy_is_unaffected_witness:
  "TraceMessenger_get_trace live_state
     = (live_state\<lparr>store := store live_state @ [store live_state ! 0]\<rparr>, Inr 1)
   \<and> store (later (\<lambda>nd. False)
              [Record (sample_msg ''c'' []), Reset, Invoke failing_computation () ()]
              (live_state\<lparr>store := store live_state @ [store live_state ! 0]\<rparr>)) ! 1
       = store live_state ! 0"
proof -
  have g: "TraceMessenger_get_trace live_state
     = (live_state\<lparr>store := store live_state @ [store live_state ! 0]\<rparr>, Inr 1)"
    by (simp add: TraceMessenger_get_trace_def self_trace_def alloc_def copy_eq live_state_eq)
  have len: "length (store live_state) = 1" by (simp add: live_state_eq)
  show ?thesis
    using g returned_copy_is_unaffected [OF g, of "\<lambda>nd. False" failing_computation "()" "()"
        "[Record (sample_msg ''c'' []), Reset, Invoke failing_computation () ()]"]
    by (simp add: nth_append len)
qed

lemma record_effect_fresh:
  "map_of (nodes tr) (msg_name m) = None \<Longrightarrow>
   record_effect tr m = Inr (tr\<lparr>nodes := nodes tr @ [(msg_name m, site_of_msg m)]\<rparr>)"
  by (simp add: record_effect_def pyro_sample_def pyro_param_def add_node_def contains_def
        Let_def split: effect_kind.splits)

lemma record_all_performs:
  "distinct (map msg_name ms) \<Longrightarrow> set (map msg_name ms) \<inter> fst ` set (nodes tr) = {} \<Longrightarrow>
   record_all (performs ms c) tr = record_all c (tr\<lparr>nodes := nodes tr @ sites ms\<rparr>)"
proof (induction ms arbitrary: tr)
  case Nil
  show ?case by (simp add: sites_def)
next
  case (Cons m ms)
  have fresh: "map_of (nodes tr) (msg_name m) = None"
    using Cons.prems(2) by (auto simp: map_of_eq_None_iff)
  let ?tr' = "tr\<lparr>nodes := nodes tr @ [(msg_name m, site_of_msg m)]\<rparr>"
  have d: "distinct (map msg_name ms)" using Cons.prems(1) by simp
  have i: "set (map msg_name ms) \<inter> fst ` set (nodes ?tr') = {}"
    using Cons.prems by auto
  show ?case
    using Cons.IH [OF d i, of] by (simp add: record_effect_fresh [OF fresh] sites_def)
qed

lemma map_of_sites:
  "distinct (map msg_name ms) \<Longrightarrow> m0 \<in> set ms \<Longrightarrow>
   map_of (sites ms) (msg_name m0) = Some (site_of_msg m0)"
proof -
  assume d: "distinct (map msg_name ms)" and m0: "m0 \<in> set ms"
  have "map fst (sites ms) = map msg_name ms" by (simp add: sites_def comp_def)
  then have "distinct (map fst (sites ms))" using d by simp
  moreover have "(msg_name m0, site_of_msg m0) \<in> set (sites ms)"
    using m0 by (auto simp: sites_def)
  ultimately show ?thesis by (rule map_of_is_SomeI)
qed

lemma pyro_sample_conflict:
  "map_of (nodes tr) (msg_name m) = Some site \<Longrightarrow>
   pyro_sample tr m =
     (if node_type site = ''param''
      then Inl (RuntimeError (msg_name m @ '' is already in the trace as a param''))
      else if node_type site = ''sample''
      then Inl (RuntimeError (''Multiple pyro.sample sites named '' @ [CHR 0x27] @ msg_name m @ [CHR 0x27]))
      else Inr None)"
  by (simp add: pyro_sample_def contains_def Let_def)

lemma pyro_param_conflict:
  "map_of (nodes tr) (msg_name m) = Some site \<Longrightarrow>
   pyro_param tr m =
     (if node_type site = ''sample''
      then Inl (RuntimeError (msg_name m @ '' is already in the trace as a sample''))
      else Inr None)"
  by (simp add: pyro_param_def contains_def)

lemma record_effect_conflict:
  "map_of (nodes tr) (msg_name m) = Some (site_of_msg m0) \<Longrightarrow>
   record_effect tr m = Inl (conflict (msg_kind m0) (msg_kind m) (msg_name m))"
  by (cases "msg_kind m"; cases "msg_kind m0")
     (simp_all add: record_effect_def pyro_sample_conflict pyro_param_conflict conflict_def
        site_of_msg_def add_node_def contains_def)

lemma second_effect_fails:
  assumes d: "distinct (map msg_name pre)" and inp: "''_INPUT'' \<notin> set (map msg_name pre)"
    and m0: "m0 \<in> set pre" and same: "msg_name m0 = msg_name m"
  shows "record_all (performs pre (Perform m rest)) (start_trace g args kwargs)
           = ((start_trace g args kwargs)\<lparr>nodes := (''_INPUT'', INPUT_site args kwargs) # sites pre\<rparr>,
              Inl (conflict (msg_kind m0) (msg_kind m) (msg_name m)))"
proof -
  let ?tr0 = "start_trace g args kwargs"
  let ?tr1 = "?tr0\<lparr>nodes := nodes ?tr0 @ sites pre\<rparr>"
  have i: "set (map msg_name pre) \<inter> fst ` set (nodes ?tr0) = {}"
    using inp by (simp add: start_trace_fields)
  have r: "record_all (performs pre (Perform m rest)) ?tr0 = record_all (Perform m rest) ?tr1"
    by (rule record_all_performs [OF d i])
  have "msg_name m0 \<in> set (map msg_name pre)" using m0 by simp
  then have "''_INPUT'' \<noteq> msg_name m" using inp same by metis
  then have "map_of (nodes ?tr1) (msg_name m) = Some (site_of_msg m0)"
    using map_of_sites [OF d m0] same by (simp add: start_trace_fields)
  then have "record_effect ?tr1 m = Inl (conflict (msg_kind m0) (msg_kind m) (msg_name m))"
    by (rule record_effect_conflict)
  then show ?thesis using r by (simp add: start_trace_fields)
qed

lemma traced_second_effect:
  assumes fn: "c = performs pre (Perform m rest)"
    and d: "distinct (map msg_name pre)" and inp: "''_INPUT'' \<notin> set (map msg_name pre)"
    and m0: "m0 \<in> set pre" and same: "msg_name m0 = msg_name m"
  shows "snd (traced sub g c args kwargs) = Inl (conflict (msg_kind m0) (msg_kind m) (msg_name m))"
    and "map_of (nodes (fst (traced sub g c args kwargs))) (msg_name m) = Some (site_of_msg m0)"
proof -
  note r = second_effect_fails [OF d inp m0 same, of rest g args kwargs]
  show "snd (traced sub g c args kwargs) = Inl (conflict (msg_kind m0) (msg_kind m) (msg_name m))"
    by (simp add: traced_def fn r Let_def)
  have "msg_name m0 \<in> set (map msg_name pre)" using m0 by simp
  then have ne: "''_INPUT'' \<noteq> msg_name m" using inp same by metis
  have "nodes (fst (traced sub g c args kwargs)) = (''_INPUT'', INPUT_site args kwargs) # sites pre"
    by (simp add: traced_def fn r Let_def exit_trace_fields)
  then show "map_of (nodes (fst (traced sub g c args kwargs))) (msg_name m) = Some (site_of_msg m0)"
    using ne map_of_sites [OF d m0] same by simp
qed

lemma traced_distinct: "distinct (map fst (nodes (fst (traced sub g c args kwargs))))"
proof -
  let ?tr1 = "fst (record_all c (start_trace g args kwargs))"
  have d1: "distinct (map fst (nodes (exit_trace sub g ?tr1)))"
    using record_all_fields [of c "start_trace g args kwargs"]
    by (simp add: exit_trace_fields start_trace_fields)
  have "\<And>tr3 n site. add_node (exit_trace sub g ?tr1) n site = Inr tr3
          \<Longrightarrow> distinct (map fst (nodes tr3))"
  proof -
    fix tr3 n site assume "add_node (exit_trace sub g ?tr1) n site = Inr tr3"
    from add_node_fields [OF this] show "distinct (map fst (nodes tr3))"
      using d1 by (simp add: map_of_eq_None_iff)
  qed
  then show ?thesis
    using d1 by (auto simp: traced_def Let_def split: sum.splits)
qed

text \<open>
  Claim C3. When the name of a message is already in the trace, \<^verbatim>\<open>_pyro_sample\<close> raises
  if the recorded node has type \<open>param\<close> and if it has type \<open>sample\<close>, and
  \<^verbatim>\<open>_pyro_param\<close> raises if it has type \<open>sample\<close>. In an invocation whose computation
  performs an effect at a name an earlier effect of the computation has recorded, one of the
  two being a sample effect, that error is the outcome of the invocation.
\<close>

theorem conflicting_effect_raises:
  "(map_of (nodes tr) (msg_name m) = Some site \<and> node_type site = ''param''
      \<longrightarrow> contains tr (msg_name m)
          \<and> pyro_sample tr m
              = Inl (RuntimeError (msg_name m @ '' is already in the trace as a param'')))
   \<and> (map_of (nodes tr) (msg_name m) = Some site \<and> node_type site = ''sample''
      \<longrightarrow> contains tr (msg_name m)
          \<and> pyro_sample tr m
              = Inl (RuntimeError
                  (''Multiple pyro.sample sites named '' @ [CHR 0x27] @ msg_name m @ [CHR 0x27]))
          \<and> pyro_param tr m
              = Inl (RuntimeError (msg_name m @ '' is already in the trace as a sample'')))
   \<and> (fn args kwargs = performs pre (Perform m rest) \<and> distinct (map msg_name pre)
        \<and> ''_INPUT'' \<notin> set (map msg_name pre) \<and> earlier \<in> set pre \<and> msg_name earlier = msg_name m
      \<longrightarrow> (msg_kind earlier = param \<and> msg_kind m = sample
            \<longrightarrow> snd (TracePoutine_call sub fn args kwargs s)
                = Inl (RuntimeError (msg_name m @ '' is already in the trace as a param'')))
          \<and> (msg_kind earlier = sample \<and> msg_kind m = sample
            \<longrightarrow> snd (TracePoutine_call sub fn args kwargs s)
                = Inl (RuntimeError
                    (''Multiple pyro.sample sites named '' @ [CHR 0x27] @ msg_name m @ [CHR 0x27])))
          \<and> (msg_kind earlier = sample \<and> msg_kind m = param
            \<longrightarrow> snd (TracePoutine_call sub fn args kwargs s)
                = Inl (RuntimeError (msg_name m @ '' is already in the trace as a sample''))))"
proof -
  have a: "map_of (nodes tr) (msg_name m) = Some site \<and> node_type site = ''param''
      \<longrightarrow> contains tr (msg_name m)
          \<and> pyro_sample tr m
              = Inl (RuntimeError (msg_name m @ '' is already in the trace as a param''))"
    by (simp add: pyro_sample_conflict contains_def)
  have b: "map_of (nodes tr) (msg_name m) = Some site \<and> node_type site = ''sample''
      \<longrightarrow> contains tr (msg_name m)
          \<and> pyro_sample tr m
              = Inl (RuntimeError
                  (''Multiple pyro.sample sites named '' @ [CHR 0x27] @ msg_name m @ [CHR 0x27]))
          \<and> pyro_param tr m
              = Inl (RuntimeError (msg_name m @ '' is already in the trace as a sample''))"
    by (simp add: pyro_sample_conflict pyro_param_conflict contains_def)
  have c: "fn args kwargs = performs pre (Perform m rest) \<and> distinct (map msg_name pre)
        \<and> ''_INPUT'' \<notin> set (map msg_name pre) \<and> earlier \<in> set pre \<and> msg_name earlier = msg_name m
      \<longrightarrow> snd (TracePoutine_call sub fn args kwargs s)
            = Inl (conflict (msg_kind earlier) (msg_kind m) (msg_name m))"
  proof (intro impI, elim conjE)
    assume fn: "fn args kwargs = performs pre (Perform m rest)"
      and d: "distinct (map msg_name pre)" and inp: "''_INPUT'' \<notin> set (map msg_name pre)"
      and e: "earlier \<in> set pre" and same: "msg_name earlier = msg_name m"
    show "snd (TracePoutine_call sub fn args kwargs s)
            = Inl (conflict (msg_kind earlier) (msg_kind m) (msg_name m))"
      using traced_second_effect(1) [OF fn d inp e same, of sub "graph_type (msngr s)" args kwargs]
      by (simp add: TracePoutine_call_eq)
  qed
  show ?thesis
    using a b c by (simp add: conflict_def)
qed

theorem conflicting_effect_raises_witness:
  "pyro_sample recorded_trace (sample_msg ''w'' [])
     = Inl (RuntimeError ''w is already in the trace as a param'')
   \<and> pyro_sample recorded_trace (sample_msg ''a'' [])
     = Inl (RuntimeError (''Multiple pyro.sample sites named '' @ [CHR 0x27] @ ''a'' @ [CHR 0x27]))
   \<and> pyro_param recorded_trace (param_msg ''a'')
     = Inl (RuntimeError ''a is already in the trace as a sample'')
   \<and> snd (TracePoutine_call (\<lambda>nd. False) sample_after_param () () flat_state)
     = Inl (RuntimeError ''w is already in the trace as a param'')
   \<and> snd (TracePoutine_call (\<lambda>nd. False) sample_twice () () flat_state)
     = Inl (RuntimeError (''Multiple pyro.sample sites named '' @ [CHR 0x27] @ ''a'' @ [CHR 0x27]))
   \<and> snd (TracePoutine_call (\<lambda>nd. False) param_after_sample () () flat_state)
     = Inl (RuntimeError ''a is already in the trace as a sample'')"
proof -
  have h1: "pyro_sample recorded_trace (sample_msg ''w'' [])
     = Inl (RuntimeError ''w is already in the trace as a param'')"
    using conflicting_effect_raises [where tr = recorded_trace and m = "sample_msg ''w'' []"
        and site = "site_of_msg (param_msg ''w'')"]
    by (simp add: recorded_trace_def sample_msg_def param_msg_def site_of_msg_def)
  have h2: "pyro_sample recorded_trace (sample_msg ''a'' [])
     = Inl (RuntimeError (''Multiple pyro.sample sites named '' @ [CHR 0x27] @ ''a'' @ [CHR 0x27]))"
    using conflicting_effect_raises [where tr = recorded_trace and m = "sample_msg ''a'' []"
        and site = "site_of_msg (sample_msg ''a'' [])"]
    by (simp add: recorded_trace_def sample_msg_def param_msg_def site_of_msg_def)
  have h3: "pyro_param recorded_trace (param_msg ''a'')
     = Inl (RuntimeError ''a is already in the trace as a sample'')"
    using conflicting_effect_raises [where tr = recorded_trace and m = "param_msg ''a''"
        and site = "site_of_msg (sample_msg ''a'' [])"]
    by (simp add: recorded_trace_def sample_msg_def param_msg_def site_of_msg_def)
  have c1: "snd (TracePoutine_call (\<lambda>nd. False) sample_after_param () () flat_state)
     = Inl (RuntimeError ''w is already in the trace as a param'')"
    using conflicting_effect_raises [where fn = sample_after_param and args = "()"
        and kwargs = "()" and pre = "[sample_msg ''a'' [], param_msg ''w'']"
        and m = "sample_msg ''w'' []" and rest = "Done ()" and earlier = "param_msg ''w''"
        and sub = "\<lambda>nd. False" and s = flat_state]
    by (simp add: sample_after_param_def sample_msg_def param_msg_def)
  have c2: "snd (TracePoutine_call (\<lambda>nd. False) sample_twice () () flat_state)
     = Inl (RuntimeError (''Multiple pyro.sample sites named '' @ [CHR 0x27] @ ''a'' @ [CHR 0x27]))"
    using conflicting_effect_raises [where fn = sample_twice and args = "()"
        and kwargs = "()" and pre = "[sample_msg ''a'' [], param_msg ''w'']"
        and m = "sample_msg ''a'' []" and rest = "Done ()" and earlier = "sample_msg ''a'' []"
        and sub = "\<lambda>nd. False" and s = flat_state]
    by (simp add: sample_twice_def sample_msg_def param_msg_def)
  have c3: "snd (TracePoutine_call (\<lambda>nd. False) param_after_sample () () flat_state)
     = Inl (RuntimeError ''a is already in the trace as a sample'')"
    using conflicting_effect_raises [where fn = param_after_sample and args = "()"
        and kwargs = "()" and pre = "[sample_msg ''a'' [], param_msg ''w'']"
        and m = "param_msg ''a''" and rest = "Done ()" and earlier = "sample_msg ''a'' []"
        and sub = "\<lambda>nd. False" and s = flat_state]
    by (simp add: param_after_sample_def sample_msg_def param_msg_def)
  show ?thesis using h1 h2 h3 c1 c2 c3 by simp
qed

text \<open>
  Claim C4. In an invocation whose computation performs a param effect at a name an
  earlier param effect of the computation has recorded, the outcome of the invocation is
  the error \<open>DuplicateSiteError\<close>, and the node under that name is still the one the first
  effect wrote. The hook \<^verbatim>\<open>_pyro_param\<close> lets the second effect pass; the insertion
  into the trace rejects it. After every invocation the names of the live trace are
  distinct: one node per name.
\<close>

theorem second_param_fails_loudly:
  "(fn args kwargs = performs pre (Perform m rest) \<and> distinct (map msg_name pre)
        \<and> ''_INPUT'' \<notin> set (map msg_name pre) \<and> earlier \<in> set pre \<and> msg_name earlier = msg_name m
        \<and> msg_kind earlier = param \<and> msg_kind m = param
      \<longrightarrow> snd (TracePoutine_call sub fn args kwargs s) = Inl (DuplicateSiteError (msg_name m))
          \<and> (\<exists>t live. self_trace (fst (TracePoutine_call sub fn args kwargs s)) = Inr (t, live)
                \<and> map_of (nodes live) (msg_name m) = Some (site_of_msg earlier)))
   \<and> (map_of (nodes tr) (msg_name m) = Some site \<and> node_type site = ''param''
      \<longrightarrow> pyro_param tr m = Inr None
          \<and> add_node tr (msg_name m) (site_of_msg m) = Inl (DuplicateSiteError (msg_name m)))
   \<and> (\<exists>t live. self_trace (fst (TracePoutine_call sub' fn' args' kwargs' s')) = Inr (t, live)
          \<and> distinct (map fst (nodes live)))"
proof -
  have a: "fn args kwargs = performs pre (Perform m rest) \<and> distinct (map msg_name pre)
        \<and> ''_INPUT'' \<notin> set (map msg_name pre) \<and> earlier \<in> set pre \<and> msg_name earlier = msg_name m
        \<and> msg_kind earlier = param \<and> msg_kind m = param
      \<longrightarrow> snd (TracePoutine_call sub fn args kwargs s) = Inl (DuplicateSiteError (msg_name m))
          \<and> (\<exists>t tr. self_trace (fst (TracePoutine_call sub fn args kwargs s)) = Inr (t, tr)
                \<and> map_of (nodes tr) (msg_name m) = Some (site_of_msg earlier))"
  proof (intro impI, elim conjE)
    assume fn: "fn args kwargs = performs pre (Perform m rest)"
      and d: "distinct (map msg_name pre)" and inp: "''_INPUT'' \<notin> set (map msg_name pre)"
      and e: "earlier \<in> set pre" and same: "msg_name earlier = msg_name m"
      and k: "msg_kind earlier = param" "msg_kind m = param"
    note r = traced_second_effect [OF fn d inp e same, of sub "graph_type (msngr s)" args kwargs]
    show "snd (TracePoutine_call sub fn args kwargs s) = Inl (DuplicateSiteError (msg_name m))
          \<and> (\<exists>t tr. self_trace (fst (TracePoutine_call sub fn args kwargs s)) = Inr (t, tr)
                \<and> map_of (nodes tr) (msg_name m) = Some (site_of_msg earlier))"
      using r k by (simp add: TracePoutine_call_eq self_trace_def conflict_def)
  qed
  have b: "map_of (nodes tr) (msg_name m) = Some site \<and> node_type site = ''param''
      \<longrightarrow> pyro_param tr m = Inr None
          \<and> add_node tr (msg_name m) (site_of_msg m) = Inl (DuplicateSiteError (msg_name m))"
    by (simp add: pyro_param_conflict add_node_def contains_def)
  have c: "\<exists>t tr. self_trace (fst (TracePoutine_call sub' fn' args' kwargs' s')) = Inr (t, tr)
          \<and> distinct (map fst (nodes tr))"
    by (simp add: self_trace_after_call traced_distinct)
  show ?thesis using a b c by blast
qed

theorem second_param_fails_loudly_witness:
  "snd (TracePoutine_call (\<lambda>nd. False) param_twice () () flat_state)
     = Inl (DuplicateSiteError ''w'')
   \<and> (\<exists>t tr. self_trace (fst (TracePoutine_call (\<lambda>nd. False) param_twice () () flat_state))
               = Inr (t, tr)
         \<and> map_of (nodes tr) ''w'' = Some (site_of_msg (param_msg ''w'')))
   \<and> pyro_param recorded_trace (param_msg ''w'') = Inr None
   \<and> add_node recorded_trace ''w'' (site_of_msg (param_msg ''w'')) = Inl (DuplicateSiteError ''w'')"
proof -
  have name: "msg_name (param_msg ''w'') = ''w''" by (simp add: param_msg_def)
  have c: "snd (TracePoutine_call (\<lambda>nd. False) param_twice () () flat_state)
     = Inl (DuplicateSiteError ''w'')
   \<and> (\<exists>t tr. self_trace (fst (TracePoutine_call (\<lambda>nd. False) param_twice () () flat_state))
               = Inr (t, tr)
         \<and> map_of (nodes tr) ''w'' = Some (site_of_msg (param_msg ''w'')))"
    using second_param_fails_loudly [where fn = param_twice and args = "()"
        and kwargs = "()" and pre = "[sample_msg ''a'' [], param_msg ''w'']"
        and m = "param_msg ''w''" and rest = "Done ()" and earlier = "param_msg ''w''"
        and sub = "\<lambda>nd. False" and s = flat_state and tr = recorded_trace
        and site = "site_of_msg (param_msg ''w'')" and sub' = "\<lambda>nd. False"
        and fn' = param_twice and args' = "()" and kwargs' = "()" and s' = flat_state]
    by (simp add: param_twice_def sample_msg_def param_msg_def)
  have h: "pyro_param recorded_trace (param_msg ''w'') = Inr None
   \<and> add_node recorded_trace ''w'' (site_of_msg (param_msg ''w'')) = Inl (DuplicateSiteError ''w'')"
    using second_param_fails_loudly [where tr = recorded_trace and m = "param_msg ''w''"
        and site = "site_of_msg (param_msg ''w'')" and fn = param_twice and args = "()"
        and kwargs = "()" and pre = "[sample_msg ''a'' [], param_msg ''w'']"
        and rest = "Done ()" and earlier = "param_msg ''w''"
        and sub = "\<lambda>nd. False" and s = flat_state and sub' = "\<lambda>nd. False"
        and fn' = param_twice and args' = "()" and kwargs' = "()" and s' = flat_state]
    by (simp add: recorded_trace_def sample_msg_def param_msg_def site_of_msg_def)
  show ?thesis using c h by simp
qed

end
